theory Spec2Isabelle
  imports Complex_Main
begin

section \<open>Accounts and keys (ConfigLoader.ts, ConfigService.ts)\<close>

text \<open>
  The key roles of \<^verbatim>\<open>enum KeyName\<close> (ConfigService.ts) and the four values of
  \<^verbatim>\<open>PrivateKeySecurityMode\<close>, in ascending strictness.
\<close>

datatype KeyName = Main | Remote | Transport | Voting | VRF | Agent | NemesisSigner | NemesisAccount

datatype PrivateKeySecurityMode = ENCRYPT | PROMPT_MAIN | PROMPT_MAIN_TRANSPORT | PROMPT_ALL

text \<open>
  Every \<^verbatim>\<open>throw\<close> of the modelled code is a constructor. \<open>known\<close> tells the
  user-facing \<^verbatim>\<open>KnownError\<close> class from a plain \<^verbatim>\<open>Error\<close> (or a runtime
  \<^verbatim>\<open>TypeError\<close>/\<^verbatim>\<open>RangeError\<close>).
\<close>

datatype error =
    NetworkTypeUnresolved
  | InvalidSecurityMode string
  | CannotBeGenerated KeyName PrivateKeySecurityMode
  | NemesisMustBeDefined
  | OldPresetDataMustBeDefined
  | NegativeBalance string string int nat
  | InvalidTotalSupplied int int
  | TypeErrorUndefined
  | RangeErrorArrayLength
  | TemplateError string
  | CannotUpgradeWithout string
  | FileDoesNotExist string
  | SeedForPresetNotFound string
  | SeedNotFound

fun known :: "error \<Rightarrow> bool" where
  "known (CannotBeGenerated k m) = True"
| "known (InvalidSecurityMode s) = True"
| "known (CannotUpgradeWithout f) = True"
| "known (SeedForPresetNotFound f) = True"
| "known e = False"

text \<open>
  The symbol-sdk is an external collaborator. Its key derivation is a parameter:
  \<open>publicKeyOf k\<close> is the public key of \<^verbatim>\<open>Account.createFromPrivateKey(k, networkType)\<close>,
  \<open>addressOf p\<close> the plain address of \<^verbatim>\<open>PublicAccount.createFromPublicKey(p, networkType)\<close>,
  \<open>newPrivateKey n\<close> the private key of the \<open>n\<close>-th account that
  \<^verbatim>\<open>Account.generateNewAccount(networkType)\<close> hands out during the run,
  \<open>mosaicIdOf n a\<close> the hex of \<^verbatim>\<open>MosaicId.createFromNonce(MosaicNonce.createFromNumber(n), a)\<close>
  and \<open>randomHex\<close> the value of \<^verbatim>\<open>Convert.uint8ToHex(Crypto.randomBytes(32))\<close>.
  The network type is fixed during a run. Keys are taken to be well-formed hex strings, on
  which the sdk constructors do not throw.
\<close>

record sdk =
  publicKeyOf :: "string \<Rightarrow> string"
  addressOf :: "string \<Rightarrow> string"
  newPrivateKey :: "nat \<Rightarrow> string"
  mosaicIdOf :: "nat \<Rightarrow> string \<Rightarrow> string"
  randomHex :: string

text \<open>An sdk account object: an \<^verbatim>\<open>Account\<close> holds a private key, a \<^verbatim>\<open>PublicAccount\<close> a public key.\<close>

datatype sdk_account = Account string | PublicAccount string

fun accountPublicKey :: "sdk \<Rightarrow> sdk_account \<Rightarrow> string" where
  "accountPublicKey s (Account k) = publicKeyOf s k"
| "accountPublicKey s (PublicAccount p) = p"

definition accountAddress :: "sdk \<Rightarrow> sdk_account \<Rightarrow> string" where
  "accountAddress s a = addressOf s (accountPublicKey s a)"

record ConfigAccount =
  privateKey :: "string option"
  publicKey :: string
  address :: string

text \<open>\<^verbatim>\<open>String.prototype.toUpperCase\<close> on the ASCII range (keys are hex strings).\<close>

definition upperChar :: "char \<Rightarrow> char" where
  "upperChar c =
     (case map_of (zip ''abcdefghijklmnopqrstuvwxyz'' ''ABCDEFGHIJKLMNOPQRSTUVWXYZ'') c of
        Some u \<Rightarrow> u | None \<Rightarrow> c)"

definition toUpperCase :: "string \<Rightarrow> string" where
  "toUpperCase s = map upperChar s"

text \<open>JavaScript truthiness of a \<^verbatim>\<open>string | undefined\<close>: undefined and the empty string are falsy.\<close>

fun truthy :: "string option \<Rightarrow> bool" where
  "truthy None = False"
| "truthy (Some s) = (s \<noteq> [])"

text \<open>\<^verbatim>\<open>ConfigLoader.getAccount(networkType, publicKey, privateKey)\<close>.\<close>

definition getAccount :: "string option \<Rightarrow> string option \<Rightarrow> sdk_account option" where
  "getAccount publicKey' privateKey' =
     (if truthy privateKey' then map_option Account privateKey'
      else if truthy publicKey' then map_option PublicAccount publicKey'
      else None)"

text \<open>\<^verbatim>\<open>ConfigLoader.toConfig\<close> (the instance and the static method agree).\<close>

fun toConfig :: "sdk \<Rightarrow> sdk_account \<Rightarrow> ConfigAccount" where
  "toConfig s (Account k) =
     \<lparr>privateKey = Some k, publicKey = publicKeyOf s k, address = addressOf s (publicKeyOf s k)\<rparr>"
| "toConfig s (PublicAccount p) =
     \<lparr>privateKey = None, publicKey = p, address = addressOf s p\<rparr>"

text \<open>
  The object spread \<^verbatim>\<open>{ ...a, ...b }\<close> of two ConfigAccount objects: \<open>publicKey\<close> and
  \<open>address\<close> are own keys of both, \<open>privateKey\<close> is an own key only where it is present.
\<close>

definition spread :: "ConfigAccount \<Rightarrow> ConfigAccount \<Rightarrow> ConfigAccount" where
  "spread a b =
     \<lparr>privateKey = (case privateKey b of Some k \<Rightarrow> Some k | None \<Rightarrow> privateKey a),
      publicKey = publicKey b, address = address b\<rparr>"

text \<open>
  Every call of \<^verbatim>\<open>Account.generateNewAccount\<close> is recorded with its call site: the sink
  account (line 67), a key of a role (line 319), a free account of mosaic \<open>i\<close> (line 223).
  The trace so far is the state of the generator; the next account is the one numbered by
  the length of the trace.
\<close>

datatype gen_site = GenSink | GenKey KeyName | GenNemesisAccount nat

type_synonym rng = "gen_site list"

definition generateNewAccount :: "sdk \<Rightarrow> gen_site \<Rightarrow> rng \<Rightarrow> sdk_account \<times> rng" where
  "generateNewAccount s site g = (Account (newPrivateKey s (length g)), g @ [site])"

text \<open>
  The two sdk accounts \<^verbatim>\<open>generateAccount\<close> builds first (lines 265-270): the one of
  the stored account of the previous run, and the one of the keys the preset supplies.
\<close>

definition oldAccountOf :: "ConfigAccount option \<Rightarrow> sdk_account option" where
  "oldAccountOf oldStoredAccount =
     getAccount
       (map_option (\<lambda>a. toUpperCase (publicKey a)) oldStoredAccount)
       (Option.bind oldStoredAccount (\<lambda>a. map_option toUpperCase (privateKey a)))"

definition newAccountOf :: "string option \<Rightarrow> string option \<Rightarrow> sdk_account option" where
  "newAccountOf privateKey' publicKey' =
     getAccount (map_option toUpperCase publicKey') (map_option toUpperCase privateKey')"

text \<open>\<^verbatim>\<open>ConfigLoader.generateAccount\<close> (lines 257-320).\<close>

definition generateAccount ::
  "sdk \<Rightarrow> PrivateKeySecurityMode \<Rightarrow> KeyName \<Rightarrow> ConfigAccount option \<Rightarrow> string option \<Rightarrow>
   string option \<Rightarrow> rng \<Rightarrow> error + (ConfigAccount \<times> rng)" where
  "generateAccount s privateKeySecurityMode keyName oldStoredAccount privateKey' publicKey' g =
     (case (oldAccountOf oldStoredAccount, newAccountOf privateKey' publicKey') of
        (Some oldAccount, None) \<Rightarrow> Inr (toConfig s oldAccount, g)
      | (None, Some newAccount) \<Rightarrow> Inr (toConfig s newAccount, g)
      | (Some oldAccount, Some newAccount) \<Rightarrow>
          if accountAddress s oldAccount = accountAddress s newAccount
          then Inr (spread (toConfig s oldAccount) (toConfig s newAccount), g)
          else Inr (toConfig s newAccount, g)
      | (None, None) \<Rightarrow>
          if keyName = Main \<and>
             (privateKeySecurityMode = PROMPT_ALL \<or>
              privateKeySecurityMode = PROMPT_MAIN_TRANSPORT \<or>
              privateKeySecurityMode = PROMPT_MAIN)
          then Inl (CannotBeGenerated keyName privateKeySecurityMode)
          else if keyName = Transport \<and>
             (privateKeySecurityMode = PROMPT_ALL \<or>
              privateKeySecurityMode = PROMPT_MAIN_TRANSPORT)
          then Inl (CannotBeGenerated keyName privateKeySecurityMode)
          else if privateKeySecurityMode = PROMPT_ALL
          then Inl (CannotBeGenerated keyName privateKeySecurityMode)
          else (case generateNewAccount s (GenKey keyName) g of
                  (a, g') \<Rightarrow> Inr (toConfig s a, g')))"

text \<open>
  A stored account in the form \<^verbatim>\<open>toConfig\<close> writes it: upper-case hex keys, the public
  key and the address derived by the sdk.
\<close>

definition storedForm :: "sdk \<Rightarrow> ConfigAccount \<Rightarrow> bool" where
  "storedForm s a =
     (case privateKey a of
        Some k \<Rightarrow> k \<noteq> [] \<and> toUpperCase k = k \<and> a = toConfig s (Account k)
      | None \<Rightarrow> publicKey a \<noteq> [] \<and> toUpperCase (publicKey a) = publicKey a \<and>
                a = toConfig s (PublicAccount (publicKey a)))"

text \<open>A small concrete sdk for evaluating the definitions on examples.\<close>

definition exampleSdk :: sdk where
  "exampleSdk =
     \<lparr>publicKeyOf = (\<lambda>k. CHR ''P'' # k), addressOf = (\<lambda>p. CHR ''T'' # p),
      newPrivateKey = (\<lambda>n. replicate (Suc n) CHR ''F''),
      mosaicIdOf = (\<lambda>n a. replicate (Suc n) CHR ''0'' @ a), randomHex = ''00FF''\<rparr>"

section \<open>Preset values, lodash and the template expander (ConfigLoader.ts)\<close>

text \<open>
  A preset layer is a YAML document: null, booleans, numbers, strings, arrays and objects.
  Numbers are taken to be integers. An object is the list of its entries in key order,
  each key once.
\<close>

datatype jv = JNull | JBool bool | JNum int | JStr string | JArr "jv list" | JObj "(string \<times> jv) list"

type_synonym ctx = "string \<Rightarrow> jv option"

text \<open>
  Two library functions are parameters: \<^verbatim>\<open>BootstrapUtils.runTemplate(value, context)\<close>
  (Handlebars; it throws on a template it cannot render) and lodash's \<^verbatim>\<open>toFinite\<close> on
  a value that is not a number (\<^verbatim>\<open>_.range\<close> applies it to its argument).
\<close>

record lib =
  runTemplate :: "string \<Rightarrow> ctx \<Rightarrow> error + string"
  toFinite :: "jv \<Rightarrow> int"

text \<open>JavaScript truthiness, \<^verbatim>\<open>_.isObject\<close> (true of arrays too) and \<^verbatim>\<open>_.isEmpty\<close>.\<close>

fun truthyJ :: "jv \<Rightarrow> bool" where
  "truthyJ JNull = False"
| "truthyJ (JBool b) = b"
| "truthyJ (JNum n) = (n \<noteq> 0)"
| "truthyJ (JStr s) = (s \<noteq> [])"
| "truthyJ (JArr xs) = True"
| "truthyJ (JObj fs) = True"

fun isObject :: "jv \<Rightarrow> bool" where
  "isObject (JArr xs) = True"
| "isObject (JObj fs) = True"
| "isObject v = False"

fun isEmptyJ :: "jv \<Rightarrow> bool" where
  "isEmptyJ (JObj fs) = (fs = [])"
| "isEmptyJ (JArr xs) = (xs = [])"
| "isEmptyJ (JStr s) = (s = [])"
| "isEmptyJ v = True"

text \<open>The decimal digits of an array index, and the own enumerable entries of a value.\<close>

fun digitsOf :: "nat \<Rightarrow> string" where
  "digitsOf n =
     (if n < 10 then [''0123456789'' ! n] else digitsOf (n div 10) @ [''0123456789'' ! (n mod 10)])"

fun entriesOf :: "jv \<Rightarrow> (string \<times> jv) list" where
  "entriesOf (JObj fs) = fs"
| "entriesOf (JArr xs) = zip (map digitsOf [0..<length xs]) xs"
| "entriesOf v = []"

text \<open>\<^verbatim>\<open>_.range(n)\<close>: \<open>0, 1, \<dots>, n - 1\<close>, and \<open>0, -1, \<dots>, n + 1\<close> for a negative \<open>n\<close>.\<close>

definition rangeJ :: "int \<Rightarrow> int list" where
  "rangeJ n = (if 0 \<le> n then map int [0..<nat n] else map (\<lambda>i. - int i) [0..<nat (- n)])"

text \<open>The argument \<^verbatim>\<open>repeat || 1\<close> of \<^verbatim>\<open>_.range\<close>, as a number.\<close>

definition repeatCount :: "lib \<Rightarrow> jv option \<Rightarrow> int" where
  "repeatCount l r =
     (case r of
        None \<Rightarrow> 1
      | Some (JNum n) \<Rightarrow> if n \<noteq> 0 then n else 1
      | Some v \<Rightarrow> if truthyJ v then toFinite l v else 1)"

text \<open>\<^verbatim>\<open>_.omit(object, key)\<close>.\<close>

definition omit :: "(string \<times> jv) list \<Rightarrow> string \<Rightarrow> jv" where
  "omit fs k = JObj (filter (\<lambda>(k', v). k' \<noteq> k) fs)"

text \<open>Running a list of computations in order; the first throw aborts the rest.\<close>

fun sequence :: "('e + 'a) list \<Rightarrow> 'e + 'a list" where
  "sequence [] = Inr []"
| "sequence (Inl e # rs) = Inl e"
| "sequence (Inr x # rs) = (case sequence rs of Inl e \<Rightarrow> Inl e | Inr xs \<Rightarrow> Inr (x # xs))"

lemma entriesOf_size: "(k, v) \<in> set (entriesOf x) \<Longrightarrow> size v < size x"
proof (cases x)
  case (JArr xs)
  assume "(k, v) \<in> set (entriesOf x)"
  with JArr have "v \<in> set xs" by (auto dest: set_zip_rightD)
  then have "size v \<le> size_list size xs" by (simp add: size_list_estimation')
  with JArr show ?thesis by simp
next
  case (JObj fs)
  assume "(k, v) \<in> set (entriesOf x)"
  with JObj have "(k, v) \<in> set fs" by simp
  then have "size_prod (\<lambda>_. 0) size (k, v) \<le> size_list (size_prod (\<lambda>_. 0) size) fs"
    by (rule size_list_estimation') simp
  with JObj show ?thesis by simp
qed simp_all

text \<open>
  \<^verbatim>\<open>ConfigLoader.applyValueTemplate\<close> (lines 602-618) and
  \<^verbatim>\<open>ConfigLoader.expandServicesRepeat\<close> (lines 621-646). \<^verbatim>\<open>_.flatMap\<close> takes
  a callback result that is not an array as one element; \<^verbatim>\<open>_.mapValues\<close> of an
  array is the object of its indices.
\<close>

function applyValueTemplate :: "lib \<Rightarrow> ctx \<Rightarrow> jv \<Rightarrow> error + jv"
  and expandServicesRepeat :: "lib \<Rightarrow> ctx \<Rightarrow> jv list \<Rightarrow> error + jv list" where
  "applyValueTemplate l c v =
     (if \<not> truthyJ v then Inr v
      else case v of
          JArr xs \<Rightarrow> map_sum id JArr (expandServicesRepeat l c xs)
        | JObj fs \<Rightarrow>
            map_sum id JObj
              (sequence (map (\<lambda>(k, x). map_sum id (Pair k) (applyValueTemplate l (c ++ map_of fs) x)) fs))
        | JStr str \<Rightarrow> map_sum id JStr (runTemplate l str c)
        | _ \<Rightarrow> Inr v)"
| "expandServicesRepeat l c services =
     map_sum id concat
       (sequence (map (\<lambda>service.
          if \<not> isObject service then Inr [service]
          else if map_of (entriesOf service) ''repeat'' = Some (JNum 0) then Inr []
          else sequence (map (\<lambda>index.
                 map_sum id (\<lambda>fs. omit fs ''repeat'')
                   (sequence (map (\<lambda>(k, x). map_sum id (Pair k)
                      (applyValueTemplate l
                         ((c ++ map_of (entriesOf service))(''$index'' \<mapsto> JNum index)) x))
                      (entriesOf service))))
               (rangeJ (repeatCount l (map_of (entriesOf service) ''repeat'')))))
        services))"
  by pat_completeness auto
termination
proof (relation "measure (\<lambda>x. case x of Inl (l, c, v) \<Rightarrow> size v | Inr (l, c, xs) \<Rightarrow> size_list size xs)", goal_cases)
  case 1 show ?case by simp
next
  case (2 l c v xs) then show ?case by simp
next
  case (3 l c v fs kx k x)
  then have "(k, x) \<in> set (entriesOf (JObj fs))" by simp
  then have "size x < size (JObj fs)" by (rule entriesOf_size)
  with 3 show ?case by simp
next
  case (4 l c services service index kx k x)
  then have "size x < size service" using entriesOf_size by metis
  moreover from 4 have "size service \<le> size_list size services" by (simp add: size_list_estimation')
  ultimately show ?case by simp
qed

declare applyValueTemplate.simps [simp del] expandServicesRepeat.simps [simp del]

text \<open>
  Names for the parts of the callback of \<^verbatim>\<open>expandServicesRepeat\<close>: the context of
  copy \<open>index\<close> (\<^verbatim>\<open>{ ...context, ...service, $index: index }\<close>), and
  \<^verbatim>\<open>_.mapValues(service, (v) => this.applyValueTemplate(context', v))\<close>.
\<close>

definition copyContext :: "ctx \<Rightarrow> jv \<Rightarrow> int \<Rightarrow> ctx" where
  "copyContext c service index = (c ++ map_of (entriesOf service))(''$index'' \<mapsto> JNum index)"

definition mapValuesTemplate :: "lib \<Rightarrow> ctx \<Rightarrow> (string \<times> jv) list \<Rightarrow> error + (string \<times> jv) list" where
  "mapValuesTemplate l c' fs =
     sequence (map (\<lambda>(k, x). map_sum id (Pair k) (applyValueTemplate l c' x)) fs)"

text \<open>The callback of \<^verbatim>\<open>_.flatMap\<close> in \<^verbatim>\<open>expandServicesRepeat\<close>, by these names.\<close>

definition expandService :: "lib \<Rightarrow> ctx \<Rightarrow> jv \<Rightarrow> error + jv list" where
  "expandService l c service =
     (if \<not> isObject service then Inr [service]
      else if map_of (entriesOf service) ''repeat'' = Some (JNum 0) then Inr []
      else sequence (map (\<lambda>index.
             map_sum id (\<lambda>fs. omit fs ''repeat'')
               (mapValuesTemplate l (copyContext c service index) (entriesOf service)))
           (rangeJ (repeatCount l (map_of (entriesOf service) ''repeat'')))))"

text \<open>
  lodash's \<^verbatim>\<open>_.merge\<close> on YAML values: \<open>baseMerge object source\<close> merges the entries
  of \<open>source\<close> into \<open>object\<close>; an object or array source value is merged recursively
  into the destination value (arrays index by index), any other source value is assigned.
  An object merged onto an array sets properties that are no part of a YAML value; the
  model keeps the array.
\<close>

definition assign :: "(string \<times> jv) list \<Rightarrow> string \<Rightarrow> jv \<Rightarrow> (string \<times> jv) list" where
  "assign fs k v =
     (if k \<in> fst ` set fs then map (\<lambda>(k', x). if k' = k then (k', v) else (k', x)) fs
      else fs @ [(k, v)])"

function mergeValue :: "jv option \<Rightarrow> jv \<Rightarrow> jv"
  and baseMerge :: "(string \<times> jv) list \<Rightarrow> (string \<times> jv) list \<Rightarrow> (string \<times> jv) list"
  and mergeElems :: "jv list \<Rightarrow> jv list \<Rightarrow> jv list" where
  "mergeValue objValue (JObj sfs) =
     (case objValue of
        Some (JObj ofs) \<Rightarrow> JObj (baseMerge ofs sfs)
      | Some (JArr oxs) \<Rightarrow> JArr oxs
      | _ \<Rightarrow> JObj (baseMerge [] sfs))"
| "mergeValue objValue (JArr sxs) =
     (case objValue of
        Some (JArr oxs) \<Rightarrow> JArr (mergeElems oxs sxs)
      | _ \<Rightarrow> JArr (mergeElems [] sxs))"
| "mergeValue objValue JNull = JNull"
| "mergeValue objValue (JBool b) = JBool b"
| "mergeValue objValue (JNum n) = JNum n"
| "mergeValue objValue (JStr s) = JStr s"
| "baseMerge object [] = object"
| "baseMerge object ((k, srcValue) # source) =
     baseMerge (assign object k (mergeValue (map_of object k) srcValue)) source"
| "mergeElems oxs [] = oxs"
| "mergeElems [] (x # sxs) = mergeValue None x # mergeElems [] sxs"
| "mergeElems (ox # oxs) (x # sxs) = mergeValue (Some ox) x # mergeElems oxs sxs"
  by pat_completeness auto
termination
  by (relation "measure (\<lambda>x. case x of Inl (ov, v) \<Rightarrow> size v
        | Inr (Inl (obj, src)) \<Rightarrow> size_list (size_prod (\<lambda>_. 0) size) src
        | Inr (Inr (oxs, sxs)) \<Rightarrow> size_list size sxs)") auto

text \<open>
  \<^verbatim>\<open>ConfigLoader.mergePresets\<close> (lines 454-460). A layer is an object or undefined;
  \<^verbatim>\<open>_.merge({}, ...presets)\<close> skips the undefined ones. \<open>hasInflation\<close> is the
  predicate \<^verbatim>\<open>(p) => p?.inflation\<close>.
\<close>

type_synonym layer = "(string \<times> jv) list"

definition hasInflation :: "layer option \<Rightarrow> bool" where
  "hasInflation p =
     (case p of
        None \<Rightarrow> False
      | Some fs \<Rightarrow> (case map_of fs ''inflation'' of None \<Rightarrow> False | Some v \<Rightarrow> truthyJ v))"

definition lodashMerge :: "layer option list \<Rightarrow> layer" where
  "lodashMerge sources =
     foldl (\<lambda>object p. case p of None \<Rightarrow> object | Some fs \<Rightarrow> baseMerge object fs) [] sources"

definition mergePresets :: "layer option list \<Rightarrow> layer" where
  "mergePresets presets =
     (let inflation = (case find hasInflation (rev presets) of
                         Some (Some fs) \<Rightarrow>
                           (case map_of fs ''inflation'' of
                              Some v \<Rightarrow> if truthyJ v then v else JObj []
                            | None \<Rightarrow> JObj [])
                       | _ \<Rightarrow> JObj []);
          presetData = lodashMerge presets
      in if \<not> isEmptyJ inflation then assign presetData ''inflation'' inflation else presetData)"

section \<open>Presets and addresses (the fields generateRandomConfiguration reads and writes)\<close>

record currencyDistribution =
  address_D :: string
  amount :: int

text \<open>\<^verbatim>\<open>accounts: number | string[]\<close> of a nemesis mosaic.\<close>

datatype accounts_spec = AccountsNumber int | AccountsKeys "string list"

record MosaicPreset =
  name_MP :: string
  supply_MP :: int
  accounts_MP :: "accounts_spec option"
  currencyDistributions :: "currencyDistribution list option"

record NemesisPreset =
  nemesisSignerPrivateKey :: "string option"
  mosaics :: "MosaicPreset list option"

record NodePreset =
  name_NP :: "string option"
  friendlyName_NP :: "string option"
  roles_NP :: "string option"
  syncsource :: bool
  api :: bool
  voting :: bool
  harvesting :: bool
  rewardProgram :: "string option"
  nodeUseRemoteAccount_NP :: bool
  mainPrivateKey :: "string option"
  mainPublicKey :: "string option"
  transportPrivateKey :: "string option"
  transportPublicKey :: "string option"
  remotePrivateKey :: "string option"
  remotePublicKey :: "string option"
  vrfPrivateKey :: "string option"
  vrfPublicKey :: "string option"
  agentPrivateKey :: "string option"
  agentPublicKey :: "string option"
  balances :: "int list option"

record ConfigPreset =
  preset :: string
  networkType :: "nat option"
  nemesisGenerationHashSeed :: "string option"
  sinkAddress :: "string option"
  nodes :: "NodePreset list option"
  harvestNetworkFeeSinkAddress :: "string option"
  mosaicRentalFeeSinkAddress :: "string option"
  namespaceRentalFeeSinkAddress :: "string option"
  networkIdentifier :: "string option"
  networkName :: "string option"
  privateKeySecurityMode :: "string option"
  nodeUseRemoteAccount :: bool
  nemesis :: "NemesisPreset option"
  nemesisSeedFolder :: "string option"
  nemesisSignerPublicKey :: "string option"
  currencyMosaicId :: "string option"
  harvestingMosaicId :: "string option"
  maxHarvesterBalance :: int

record MosaicAccounts =
  id_MA :: string
  name_MA :: string
  accounts_MA :: "ConfigAccount list"

record NodeAccount =
  name_NA :: string
  friendlyName_NA :: string
  roles_NA :: string
  main :: ConfigAccount
  transport :: ConfigAccount
  remote :: "ConfigAccount option"
  vrf :: "ConfigAccount option"
  agent :: "ConfigAccount option"

record Addresses =
  version_A :: nat
  networkType_A :: nat
  nemesisGenerationHashSeed_A :: "string option"
  sinkAddress_A :: "string option"
  nodes_A :: "NodeAccount list option"
  nemesisSigner :: "ConfigAccount option"
  mosaics_A :: "MosaicAccounts list option"

text \<open>
  What the run takes from BootstrapUtils and CryptoUtils (not part of the modelled files),
  from the file system and from the terminal:
  \<open>getPrivateKeySecurityMode\<close> parses the preset's mode (it throws on an unknown one),
  \<open>seedExists preset\<close> is \<^verbatim>\<open>existsSync(join(root, 'presets', preset, 'seed'))\<close>,
  \<open>promptResponses\<close> are the answers typed at the private-key prompt, in order.
\<close>

record env =
  getPrivateKeySecurityMode :: "string option \<Rightarrow> error + PrivateKeySecurityMode"
  isYmlFile :: "string \<Rightarrow> bool"
  seedExists :: "string \<Rightarrow> bool"
  getNetworkIdentifier :: "nat \<Rightarrow> string"
  getNetworkName :: "nat \<Rightarrow> string"
  promptResponses :: "string list"

text \<open>\<^verbatim>\<open>a || b\<close> on optional strings.\<close>

definition orElse :: "string option \<Rightarrow> string option \<Rightarrow> string option" where
  "orElse a b = (if truthy a then a else b)"

text \<open>\<^verbatim>\<open>a || d\<close> where \<open>d\<close> is a string.\<close>

definition orDefault :: "string option \<Rightarrow> string \<Rightarrow> string" where
  "orDefault a d = (case a of None \<Rightarrow> d | Some x \<Rightarrow> if x \<noteq> [] then x else d)"

section \<open>Node accounts (ConfigLoader.ts, lines 322-400)\<close>

text \<open>\<^verbatim>\<open>ConfigLoader.resolveRoles\<close>.\<close>

definition joinComma :: "string list \<Rightarrow> string" where
  "joinComma xs = (case xs of [] \<Rightarrow> [] | y # ys \<Rightarrow> foldl (\<lambda>acc z. acc @ '','' @ z) y ys)"

definition resolveRoles :: "NodePreset \<Rightarrow> string" where
  "resolveRoles nodePreset =
     (if truthy (roles_NP nodePreset) then orDefault (roles_NP nodePreset) []
      else joinComma ((if syncsource nodePreset then [''Peer''] else []) @
                      (if api nodePreset then [''Api''] else []) @
                      (if voting nodePreset then [''Voting''] else [])))"

text \<open>An optional account of a node: generated only when the node's flags ask for it.\<close>

definition generateOptional ::
  "bool \<Rightarrow> sdk \<Rightarrow> PrivateKeySecurityMode \<Rightarrow> KeyName \<Rightarrow> ConfigAccount option \<Rightarrow> string option \<Rightarrow>
   string option \<Rightarrow> rng \<Rightarrow> error + (ConfigAccount option \<times> rng)" where
  "generateOptional wanted s mode keyName old priv pub g =
     (if wanted
      then (case generateAccount s mode keyName old priv pub g of
              Inl e \<Rightarrow> Inl e
            | Inr (a, g') \<Rightarrow> Inr (Some a, g'))
      else Inr (None, g))"

text \<open>\<^verbatim>\<open>ConfigLoader.generateNodeAccount\<close>.\<close>

definition generateNodeAccount ::
  "sdk \<Rightarrow> env \<Rightarrow> NodeAccount option \<Rightarrow> ConfigPreset \<Rightarrow> nat \<Rightarrow> NodePreset \<Rightarrow> rng \<Rightarrow>
   error + (NodeAccount \<times> rng)" where
  "generateNodeAccount s e oldNodeAccount presetData index nodePreset g =
     (case getPrivateKeySecurityMode e (privateKeySecurityMode presetData) of
        Inl err \<Rightarrow> Inl err
      | Inr mode \<Rightarrow>
     (case generateAccount s mode Main (map_option main oldNodeAccount)
             (mainPrivateKey nodePreset) (mainPublicKey nodePreset) g of
        Inl err \<Rightarrow> Inl err
      | Inr (main', g1) \<Rightarrow>
     (case generateAccount s mode Transport (map_option transport oldNodeAccount)
             (transportPrivateKey nodePreset) (transportPublicKey nodePreset) g1 of
        Inl err \<Rightarrow> Inl err
      | Inr (transport', g2) \<Rightarrow>
     (case generateOptional
             ((nodeUseRemoteAccount_NP nodePreset \<or> nodeUseRemoteAccount presetData) \<and>
              (harvesting nodePreset \<or> voting nodePreset))
             s mode Remote (Option.bind oldNodeAccount remote)
             (remotePrivateKey nodePreset) (remotePublicKey nodePreset) g2 of
        Inl err \<Rightarrow> Inl err
      | Inr (remote', g3) \<Rightarrow>
     (case generateOptional (harvesting nodePreset)
             s mode VRF (Option.bind oldNodeAccount vrf)
             (vrfPrivateKey nodePreset) (vrfPublicKey nodePreset) g3 of
        Inl err \<Rightarrow> Inl err
      | Inr (vrf', g4) \<Rightarrow>
     (case generateOptional (truthy (rewardProgram nodePreset))
             s mode Agent (Option.bind oldNodeAccount agent)
             (agentPrivateKey nodePreset) (agentPublicKey nodePreset) g4 of
        Inl err \<Rightarrow> Inl err
      | Inr (agent', g5) \<Rightarrow>
          Inr (\<lparr>name_NA = orDefault (name_NP nodePreset) (''node-'' @ digitsOf index),
                friendlyName_NA = orDefault (friendlyName_NP nodePreset) (take 7 (publicKey main')),
                roles_NA = resolveRoles nodePreset,
                main = main', transport = transport',
                remote = remote', vrf = vrf', agent = agent'\<rparr>, g5)))))))"

text \<open>
  \<^verbatim>\<open>ConfigLoader.generateNodeAccounts\<close>: the nodes of the preset in order, node \<open>index\<close>
  with \<^verbatim>\<open>oldAddresses?.nodes?.[index]\<close>.
\<close>

definition oldNodeAt :: "Addresses option \<Rightarrow> nat \<Rightarrow> NodeAccount option" where
  "oldNodeAt oldAddresses index =
     (case Option.bind oldAddresses nodes_A of
        None \<Rightarrow> None
      | Some ns \<Rightarrow> if index < length ns then Some (ns ! index) else None)"

fun generateNodeAccountsFrom ::
  "sdk \<Rightarrow> env \<Rightarrow> Addresses option \<Rightarrow> ConfigPreset \<Rightarrow> nat \<Rightarrow> NodePreset list \<Rightarrow> rng \<Rightarrow>
   error + (NodeAccount list \<times> rng)" where
  "generateNodeAccountsFrom s e oldAddresses presetData index [] g = Inr ([], g)"
| "generateNodeAccountsFrom s e oldAddresses presetData index (node # rest) g =
     (case generateNodeAccount s e (oldNodeAt oldAddresses index) presetData index node g of
        Inl err \<Rightarrow> Inl err
      | Inr (a, g') \<Rightarrow>
          (case generateNodeAccountsFrom s e oldAddresses presetData (Suc index) rest g' of
             Inl err \<Rightarrow> Inl err
           | Inr (as, g'') \<Rightarrow> Inr (a # as, g'')))"

definition generateNodeAccounts ::
  "sdk \<Rightarrow> env \<Rightarrow> Addresses option \<Rightarrow> ConfigPreset \<Rightarrow> NodePreset list \<Rightarrow> rng \<Rightarrow>
   error + (NodeAccount list \<times> rng)" where
  "generateNodeAccounts s e oldAddresses presetData ns g =
     generateNodeAccountsFrom s e oldAddresses presetData 0 ns g"

section \<open>The nemesis distribution (ConfigLoader.ts, lines 136-200)\<close>

text \<open>
  Amounts are JavaScript numbers, that is IEEE 754 doubles. The amounts of a preset are
  integers; an \<open>int\<close> here stands for the double of that value, and the result of an
  operation is the double nearest to the exact result, ties going to the even significand
  (magnitudes stay far below \<open>2 ^ 1024\<close>, where a double overflows). A double of magnitude
  \<open>2 ^ 53\<close> or more is a multiple of a power of two, so sums and differences of
  integer-valued doubles are integers again.
\<close>

definition MAX_SAFE_INTEGER :: int where
  "MAX_SAFE_INTEGER = 9007199254740991"

text \<open>The number of binary digits of a positive integer.\<close>

function bitLength :: "int \<Rightarrow> nat" where
  "bitLength n = (if n \<le> 0 then 0 else Suc (bitLength (n div 2)))"
  by pat_completeness auto
termination
  by (relation "measure nat") auto

declare bitLength.simps [simp del]

text \<open>The integer nearest to \<open>p / q\<close> for \<open>q > 0\<close>, the even one of two that are equally near.\<close>

definition roundHalfEven :: "int \<Rightarrow> int \<Rightarrow> int" where
  "roundHalfEven p q =
     (if 2 * (p mod q) < q then p div q
      else if q < 2 * (p mod q) then p div q + 1
      else if even (p div q) then p div q
      else p div q + 1)"

text \<open>
  The double nearest to an integer: the integer itself below \<open>2 ^ 53\<close>, else the nearest
  multiple of \<open>2 ^ e\<close> with a significand of 53 bits.
\<close>

definition roundD :: "int \<Rightarrow> int" where
  "roundD x =
     (if \<bar>x\<bar> < 2 ^ 53 then x
      else sgn x * (roundHalfEven \<bar>x\<bar> (2 ^ (bitLength \<bar>x\<bar> - 53)) *
                    2 ^ (bitLength \<bar>x\<bar> - 53)))"

text \<open>\<^verbatim>\<open>a + b\<close> and \<^verbatim>\<open>a - b\<close> on numbers.\<close>

definition addN :: "int \<Rightarrow> int \<Rightarrow> int" where
  "addN a b = roundD (a + b)"

definition subN :: "int \<Rightarrow> int \<Rightarrow> int" where
  "subN a b = roundD (a - b)"

text \<open>
  \<^verbatim>\<open>Math.floor(a / n)\<close> for a count \<open>n\<close>: the quotient \<open>\<bar>a\<bar> / n\<close> lies in
  \<open>[2 ^ f, 2 ^ (f + 1))\<close>, the double nearest to it is a multiple of \<open>2 ^ (f - 52)\<close>, and
  the floor of that double is taken. The code divides by zero only where it has no use for
  the quotient, which is \<open>0\<close> here.
\<close>

definition floorQuotient :: "int \<Rightarrow> nat \<Rightarrow> int" where
  "floorQuotient a n =
     (if a = 0 \<or> n = 0 then 0
      else let p = \<bar>a\<bar>; q = int n;
               la = bitLength p; lq = bitLength q;
               f = (if q * 2 ^ la \<le> p * 2 ^ lq then int la - int lq else int la - int lq - 1);
               e = f - 52
           in if 0 \<le> e
              then sgn a * (roundHalfEven p (q * 2 ^ nat e) * 2 ^ nat e)
              else (sgn a * roundHalfEven (p * 2 ^ nat (- e)) q) div 2 ^ nat (- e))"

text \<open>
  The inner function \<^verbatim>\<open>sum\<close> (lines 137-148): the map throws at the first negative
  amount, naming the mosaic, the address, the amount and the index; the reduce then adds
  the amounts from the left, starting at 0.
\<close>

fun firstNegative :: "string \<Rightarrow> nat \<Rightarrow> currencyDistribution list \<Rightarrow> error option" where
  "firstNegative mosaicName index [] = None"
| "firstNegative mosaicName index (d # ds) =
     (if amount d < 0 then Some (NegativeBalance mosaicName (address_D d) (amount d) index)
      else firstNegative mosaicName (Suc index) ds)"

definition sum_D :: "string \<Rightarrow> currencyDistribution list \<Rightarrow> error + int" where
  "sum_D mosaicName distribution =
     (case firstNegative mosaicName 0 distribution of
        Some err \<Rightarrow> Inl err
      | None \<Rightarrow> Inr (foldl addN 0 (map amount distribution)))"

text \<open>
  \<^verbatim>\<open>ConfigLoader.generateAddresses\<close> with \<^verbatim>\<open>ConfigLoader.getArray\<close>: a number asks for
  that many fresh accounts (\<^verbatim>\<open>Array(size)\<close> throws a RangeError unless the size is an
  unsigned 32-bit integer), a list of private keys for their accounts.
\<close>

fun generateNewAccounts :: "sdk \<Rightarrow> gen_site \<Rightarrow> nat \<Rightarrow> rng \<Rightarrow> ConfigAccount list \<times> rng" where
  "generateNewAccounts s site 0 g = ([], g)"
| "generateNewAccounts s site (Suc n) g =
     (case generateNewAccount s site g of
        (a, g') \<Rightarrow> (case generateNewAccounts s site n g' of
                      (as, g'') \<Rightarrow> (toConfig s a # as, g'')))"

definition generateAddresses ::
  "sdk \<Rightarrow> gen_site \<Rightarrow> accounts_spec \<Rightarrow> rng \<Rightarrow> error + (ConfigAccount list \<times> rng)" where
  "generateAddresses s site accounts g =
     (case accounts of
        AccountsNumber n \<Rightarrow>
          if n < 0 \<or> 4294967295 < n then Inl RangeErrorArrayLength
          else Inr (generateNewAccounts s site (nat n) g)
      | AccountsKeys keys \<Rightarrow> Inr (map (\<lambda>key. toConfig s (Account key)) keys, g))"

text \<open>\<^verbatim>\<open>m.accounts || 1\<close>.\<close>

definition accountsOrOne :: "accounts_spec option \<Rightarrow> accounts_spec" where
  "accountsOrOne a =
     (case a of
        None \<Rightarrow> AccountsNumber 1
      | Some (AccountsNumber n) \<Rightarrow> if n \<noteq> 0 then AccountsNumber n else AccountsNumber 1
      | Some (AccountsKeys keys) \<Rightarrow> AccountsKeys keys)"

text \<open>
  \<^verbatim>\<open>getBalance(nodeIndex)\<close> (lines 156-158):
  \<^verbatim>\<open>presetData?.nodes?.[nodeIndex].balances?.[mosaicIndex]\<close>. It is called with the
  indices of \<^verbatim>\<open>addresses.nodes\<close>, which has the length of \<^verbatim>\<open>presetData.nodes\<close>
  (lemma \<open>length_generateNodeAccounts\<close>), so the node index is in range.
\<close>

definition getBalance :: "ConfigPreset \<Rightarrow> nat \<Rightarrow> nat \<Rightarrow> int option" where
  "getBalance presetData mosaicIndex nodeIndex =
     (case nodes presetData of
        None \<Rightarrow> None
      | Some ns \<Rightarrow>
          if nodeIndex < length ns
          then (case balances (ns ! nodeIndex) of
                  None \<Rightarrow> None
                | Some bs \<Rightarrow> if mosaicIndex < length bs then Some (bs ! mosaicIndex) else None)
          else None)"

text \<open>A list with its indices, as the callbacks of \<^verbatim>\<open>forEach\<close> and \<^verbatim>\<open>filter\<close> see it.\<close>

definition indexed :: "'a list \<Rightarrow> (nat \<times> 'a) list" where
  "indexed xs = zip [0..<length xs] xs"

text \<open>
  Lines 159-167: the distributions the preset provides, then one entry for each node whose
  balance for this mosaic is set. Lines 168-170: the nodes whose balance is not set.
\<close>

definition providedDistributions ::
  "ConfigPreset \<Rightarrow> NodeAccount list \<Rightarrow> MosaicPreset \<Rightarrow> nat \<Rightarrow> currencyDistribution list" where
  "providedDistributions presetData addressesNodes m mosaicIndex =
     (case currencyDistributions m of None \<Rightarrow> [] | Some ds \<Rightarrow> ds) @
     concat (map (\<lambda>(index, node).
               case getBalance presetData mosaicIndex index of
                 None \<Rightarrow> []
               | Some balance \<Rightarrow> [\<lparr>address_D = address (main node), amount = balance\<rparr>])
             (indexed addressesNodes))"

definition nodeMainAccounts :: "ConfigPreset \<Rightarrow> NodeAccount list \<Rightarrow> nat \<Rightarrow> NodeAccount list" where
  "nodeMainAccounts presetData addressesNodes mosaicIndex =
     map snd (filter (\<lambda>(index, node). getBalance presetData mosaicIndex index = None)
                (indexed addressesNodes))"

text \<open>Lines 172-174. With no dynamic account the quotient is not used by the code.\<close>

definition amountPerAccount :: "int \<Rightarrow> nat \<Rightarrow> int" where
  "amountPerAccount remainingSupply dynamicAccounts = floorQuotient remainingSupply dynamicAccounts"

text \<open>Lines 175-179: the cap of a node's main account for mosaic \<open>mosaicIndex\<close>.\<close>

definition maxHarvesterBalanceOf :: "ConfigPreset \<Rightarrow> nat \<Rightarrow> nat \<Rightarrow> int" where
  "maxHarvesterBalanceOf presetData mosaicsLength mosaicIndex =
     (if (mosaicsLength = 1 \<and> mosaicIndex = 0) \<or> (1 < mosaicsLength \<and> mosaicIndex = 1)
      then maxHarvesterBalance presetData
      else MAX_SAFE_INTEGER)"

text \<open>Lines 180-189: the generated entries, free accounts first, then the nodes' main accounts.\<close>

definition generatedAccounts ::
  "ConfigAccount list \<Rightarrow> NodeAccount list \<Rightarrow> int \<Rightarrow> int \<Rightarrow> currencyDistribution list" where
  "generatedAccounts accounts nodeMains cap perAccount =
     map (\<lambda>a. \<lparr>address_D = address a, amount = perAccount\<rparr>) accounts @
     map (\<lambda>n. \<lparr>address_D = address (main n), amount = min cap perAccount\<rparr>) nodeMains"

text \<open>
  Lines 190-194: the final list is the generated and the provided entries with a positive
  amount; the amount of its first entry is overwritten. On an empty list the assignment
  to \<^verbatim>\<open>m.currencyDistributions[0].amount\<close> throws a TypeError.
\<close>

definition correctedDistributions ::
  "string \<Rightarrow> int \<Rightarrow> int \<Rightarrow> currencyDistribution list \<Rightarrow> currencyDistribution list \<Rightarrow>
   error + currencyDistribution list" where
  "correctedDistributions mosaicName supply providedSupply generated provided =
     (case sum_D mosaicName (drop 1 generated) of
        Inl err \<Rightarrow> Inl err
      | Inr generatedSupply \<Rightarrow>
          (case filter (\<lambda>d. 0 < amount d) (generated @ provided) of
             [] \<Rightarrow> Inl TypeErrorUndefined
           | d # ds \<Rightarrow> Inr (d\<lparr>amount := subN (subN supply providedSupply) generatedSupply\<rparr> # ds)))"

text \<open>Lines 196-199: the check of the total.\<close>

definition checkSupplied ::
  "string \<Rightarrow> int \<Rightarrow> currencyDistribution list \<Rightarrow> error + currencyDistribution list" where
  "checkSupplied mosaicName supply distributions =
     (case sum_D mosaicName distributions of
        Inl err \<Rightarrow> Inl err
      | Inr supplied \<Rightarrow>
          if supply \<noteq> supplied then Inl (InvalidTotalSupplied supply supplied)
          else Inr distributions)"

text \<open>
  Lines 156-194 for the free accounts \<open>accounts\<close> of the mosaic: the list after the
  correction of its first entry. The provided sum is taken (and may throw) first.
\<close>

definition correctionStep ::
  "ConfigPreset \<Rightarrow> NodeAccount list \<Rightarrow> nat \<Rightarrow> MosaicPreset \<Rightarrow> nat \<Rightarrow> ConfigAccount list \<Rightarrow>
   error + currencyDistribution list" where
  "correctionStep presetData addressesNodes mosaicsLength m mosaicIndex accounts =
     (let provided = providedDistributions presetData addressesNodes m mosaicIndex;
          nodeMains = nodeMainAccounts presetData addressesNodes mosaicIndex
      in case sum_D (name_MP m) provided of
           Inl err \<Rightarrow> Inl err
         | Inr providedSupply \<Rightarrow>
             (let remainingSupply = subN (supply_MP m) providedSupply;
                  dynamicAccounts = length accounts + length nodeMains;
                  generated = generatedAccounts accounts nodeMains
                    (maxHarvesterBalanceOf presetData mosaicsLength mosaicIndex)
                    (amountPerAccount remainingSupply dynamicAccounts)
              in correctedDistributions (name_MP m) (supply_MP m) providedSupply
                   generated provided))"

text \<open>
  The body of \<^verbatim>\<open>presetData.nemesis.mosaics.forEach((m, mosaicIndex) => \<dots>)\<close>: the
  mosaic with its new \<^verbatim>\<open>currencyDistributions\<close>, and the entry pushed to \<^verbatim>\<open>mosaics\<close>.
\<close>

definition processMosaic ::
  "sdk \<Rightarrow> ConfigPreset \<Rightarrow> NodeAccount list \<Rightarrow> string \<Rightarrow> nat \<Rightarrow> MosaicPreset \<Rightarrow> nat \<Rightarrow> rng \<Rightarrow>
   error + (MosaicPreset \<times> MosaicAccounts \<times> rng)" where
  "processMosaic s presetData addressesNodes nemesisSignerAddress mosaicsLength m mosaicIndex g =
     (case generateAddresses s (GenNemesisAccount mosaicIndex) (accountsOrOne (accounts_MP m)) g of
        Inl err \<Rightarrow> Inl err
      | Inr (accounts, g') \<Rightarrow>
          (case correctionStep presetData addressesNodes mosaicsLength m mosaicIndex accounts of
             Inl err \<Rightarrow> Inl err
           | Inr corrected \<Rightarrow>
               (case checkSupplied (name_MP m) (supply_MP m) corrected of
                  Inl err \<Rightarrow> Inl err
                | Inr final \<Rightarrow>
                    Inr (m\<lparr>currencyDistributions := Some final\<rparr>,
                         \<lparr>id_MA = mosaicIdOf s mosaicIndex nemesisSignerAddress,
                          name_MA = name_MP m, accounts_MA = accounts\<rparr>,
                         g'))))"

text \<open>The \<^verbatim>\<open>forEach\<close> over the mosaics, from index \<open>mosaicIndex\<close> on.\<close>

fun processMosaicsFrom ::
  "sdk \<Rightarrow> ConfigPreset \<Rightarrow> NodeAccount list \<Rightarrow> string \<Rightarrow> nat \<Rightarrow> nat \<Rightarrow> MosaicPreset list \<Rightarrow> rng \<Rightarrow>
   error + (MosaicPreset list \<times> MosaicAccounts list \<times> rng)" where
  "processMosaicsFrom s presetData addressesNodes signerAddress mosaicsLength mosaicIndex [] g =
     Inr ([], [], g)"
| "processMosaicsFrom s presetData addressesNodes signerAddress mosaicsLength mosaicIndex (m # ms) g =
     (case processMosaic s presetData addressesNodes signerAddress mosaicsLength m mosaicIndex g of
        Inl err \<Rightarrow> Inl err
      | Inr (m', acc, g') \<Rightarrow>
          (case processMosaicsFrom s presetData addressesNodes signerAddress mosaicsLength
                  (Suc mosaicIndex) ms g' of
             Inl err \<Rightarrow> Inl err
           | Inr (ms', accs, g'') \<Rightarrow> Inr (m' # ms', acc # accs, g'')))"

section \<open>generateRandomConfiguration (ConfigLoader.ts, lines 43-207)\<close>

text \<open>\<^verbatim>\<open>ConfigLoader.shouldCreateNemesis\<close> (lines 209-215).\<close>

definition shouldCreateNemesis :: "env \<Rightarrow> ConfigPreset \<Rightarrow> bool" where
  "shouldCreateNemesis e presetData =
     (nemesis presetData \<noteq> None \<and> \<not> truthy (nemesisSeedFolder presetData) \<and>
      (isYmlFile e (preset presetData) \<or> \<not> seedExists e (preset presetData)))"

text \<open>
  \<^verbatim>\<open>CommandUtils.resolvePrivateKey\<close>: the prompt is repeated until an answer is the
  private key of the account's public key. \<open>None\<close>: the answers ran out and the prompt
  never returns. The accepted key is stored in the account.
\<close>

fun promptPrivateKey :: "sdk \<Rightarrow> ConfigAccount \<Rightarrow> string list \<Rightarrow> string option" where
  "promptPrivateKey s account [] = None"
| "promptPrivateKey s account (response # responses) =
     (if response = [] then promptPrivateKey s account responses
      else if toUpperCase (publicKeyOf s (toUpperCase response)) \<noteq> toUpperCase (publicKey account)
      then promptPrivateKey s account responses
      else Some (toUpperCase response))"

definition resolvePrivateKey ::
  "sdk \<Rightarrow> ConfigAccount \<Rightarrow> string list \<Rightarrow> (string \<times> ConfigAccount) option" where
  "resolvePrivateKey s account responses =
     (if \<not> truthy (privateKey account)
      then (case promptPrivateKey s account responses of
              None \<Rightarrow> None
            | Some k \<Rightarrow> Some (k, account\<lparr>privateKey := Some k\<rparr>))
      else Some (toUpperCase (orDefault (privateKey account) []), account))"

text \<open>
  \<^verbatim>\<open>getDefaultSyncAddress\<close> (lines 66-69): the sink address of the addresses, generated
  on the first demand.
\<close>

definition getDefaultSyncAddress :: "sdk \<Rightarrow> Addresses \<Rightarrow> rng \<Rightarrow> string \<times> Addresses \<times> rng" where
  "getDefaultSyncAddress s addresses g =
     (if truthy (sinkAddress_A addresses)
      then (orDefault (sinkAddress_A addresses) [], addresses, g)
      else (case generateNewAccount s GenSink g of
              (a, g') \<Rightarrow> (accountAddress s a,
                          addresses\<lparr>sinkAddress_A := Some (accountAddress s a)\<rparr>, g')))"

text \<open>Lines 74-82: each missing sink field of the preset takes the default sink address.\<close>

definition fillHarvestNetworkFeeSink ::
  "sdk \<Rightarrow> Addresses \<times> ConfigPreset \<times> rng \<Rightarrow> Addresses \<times> ConfigPreset \<times> rng" where
  "fillHarvestNetworkFeeSink s st =
     (case st of (addresses, presetData, g) \<Rightarrow>
        if \<not> truthy (harvestNetworkFeeSinkAddress presetData)
        then (case getDefaultSyncAddress s addresses g of
                (x, addresses', g') \<Rightarrow>
                  (addresses', presetData\<lparr>harvestNetworkFeeSinkAddress := Some x\<rparr>, g'))
        else st)"

definition fillMosaicRentalFeeSink ::
  "sdk \<Rightarrow> Addresses \<times> ConfigPreset \<times> rng \<Rightarrow> Addresses \<times> ConfigPreset \<times> rng" where
  "fillMosaicRentalFeeSink s st =
     (case st of (addresses, presetData, g) \<Rightarrow>
        if \<not> truthy (mosaicRentalFeeSinkAddress presetData)
        then (case getDefaultSyncAddress s addresses g of
                (x, addresses', g') \<Rightarrow>
                  (addresses', presetData\<lparr>mosaicRentalFeeSinkAddress := Some x\<rparr>, g'))
        else st)"

definition fillNamespaceRentalFeeSink ::
  "sdk \<Rightarrow> Addresses \<times> ConfigPreset \<times> rng \<Rightarrow> Addresses \<times> ConfigPreset \<times> rng" where
  "fillNamespaceRentalFeeSink s st =
     (case st of (addresses, presetData, g) \<Rightarrow>
        if \<not> truthy (namespaceRentalFeeSinkAddress presetData)
        then (case getDefaultSyncAddress s addresses g of
                (x, addresses', g') \<Rightarrow>
                  (addresses', presetData\<lparr>namespaceRentalFeeSinkAddress := Some x\<rparr>, g'))
        else st)"

text \<open>
  Lines 49-73: the network type, the initial addresses, the node accounts.
  \<^verbatim>\<open>getAddressesMigration\<close> lists one migration, so the version is 2.
\<close>

definition initialAddresses ::
  "sdk \<Rightarrow> env \<Rightarrow> Addresses option \<Rightarrow> ConfigPreset \<Rightarrow> rng \<Rightarrow> error + (Addresses \<times> rng)" where
  "initialAddresses s e oldAddresses presetData g =
     (case networkType presetData of
        None \<Rightarrow> Inl NetworkTypeUnresolved
      | Some nt \<Rightarrow>
          if nt = 0 then Inl NetworkTypeUnresolved
          else
            (let addresses =
                   \<lparr>version_A = Suc 1, networkType_A = nt,
                    nemesisGenerationHashSeed_A =
                      Some (orDefault (orElse (nemesisGenerationHashSeed presetData)
                                         (Option.bind oldAddresses nemesisGenerationHashSeed_A))
                              (randomHex s)),
                    sinkAddress_A = orElse (sinkAddress presetData)
                                      (Option.bind oldAddresses sinkAddress_A),
                    nodes_A = None, nemesisSigner = None, mosaics_A = None\<rparr>
             in case nodes presetData of
                  None \<Rightarrow> Inr (addresses, g)
                | Some ns \<Rightarrow>
                    (case generateNodeAccounts s e oldAddresses presetData ns g of
                       Inl err \<Rightarrow> Inl err
                     | Inr (as, g') \<Rightarrow> Inr (addresses\<lparr>nodes_A := Some as\<rparr>, g'))))"

text \<open>Lines 83-87.\<close>

definition networkFields :: "env \<Rightarrow> Addresses \<Rightarrow> ConfigPreset \<Rightarrow> ConfigPreset" where
  "networkFields e addresses presetData =
     (let p1 = presetData\<lparr>networkIdentifier := Some (getNetworkIdentifier e (networkType_A addresses)),
                           networkName := Some (getNetworkName e (networkType_A addresses))\<rparr>
      in if \<not> truthy (nemesisGenerationHashSeed p1)
         then p1\<lparr>nemesisGenerationHashSeed := nemesisGenerationHashSeed_A addresses\<rparr>
         else p1)"

text \<open>
  Lines 90-107: the nemesis signer, when the nemesis is to be created. \<open>None\<close>: the prompt
  for its private key never returns.
\<close>

definition nemesisSignerStage ::
  "sdk \<Rightarrow> env \<Rightarrow> PrivateKeySecurityMode \<Rightarrow> Addresses option \<Rightarrow> Addresses \<times> ConfigPreset \<times> rng \<Rightarrow>
   (error + (Addresses \<times> ConfigPreset \<times> rng)) option" where
  "nemesisSignerStage s e mode oldAddresses st =
     (case st of (addresses, presetData, g) \<Rightarrow>
        if shouldCreateNemesis e presetData
        then (case nemesis presetData of
                None \<Rightarrow> Some (Inl TypeErrorUndefined)
              | Some nem \<Rightarrow>
                  (case generateAccount s mode NemesisSigner (Option.bind oldAddresses nemesisSigner)
                          (nemesisSignerPrivateKey nem) (nemesisSignerPublicKey presetData) g of
                     Inl err \<Rightarrow> Some (Inl err)
                   | Inr (signer, g') \<Rightarrow>
                       (case resolvePrivateKey s signer (promptResponses e) of
                          None \<Rightarrow> None
                        | Some (key, signer') \<Rightarrow>
                            Some (Inr (addresses\<lparr>nemesisSigner := Some signer'\<rparr>,
                                       presetData\<lparr>nemesisSignerPublicKey := Some (publicKey signer),
                                                  nemesis := Some (nem\<lparr>nemesisSignerPrivateKey := Some key\<rparr>)\<rparr>,
                                       g')))))
        else Some (Inr st))"

text \<open>
  Lines 109-123: the address of the nemesis signer (the sdk throws on a missing public
  key) and the two mosaic ids.
\<close>

definition mosaicIdStage :: "sdk \<Rightarrow> ConfigPreset \<Rightarrow> error + (string \<times> ConfigPreset)" where
  "mosaicIdStage s presetData =
     (case nemesisSignerPublicKey presetData of
        None \<Rightarrow> Inl TypeErrorUndefined
      | Some pk \<Rightarrow>
          (let nemesisSignerAddress = addressOf s pk;
               p1 = (if \<not> truthy (currencyMosaicId presetData)
                     then presetData\<lparr>currencyMosaicId := Some (mosaicIdOf s 0 nemesisSignerAddress)\<rparr>
                     else presetData)
           in if \<not> truthy (harvestingMosaicId p1)
              then (case nemesis p1 of
                      None \<Rightarrow> Inl NemesisMustBeDefined
                    | Some nem \<Rightarrow>
                        if (case mosaics nem of None \<Rightarrow> False | Some ms \<Rightarrow> 1 < length ms)
                        then Inr (nemesisSignerAddress,
                                  p1\<lparr>harvestingMosaicId := Some (mosaicIdOf s 1 nemesisSignerAddress)\<rparr>)
                        else Inr (nemesisSignerAddress,
                                  p1\<lparr>harvestingMosaicId := currencyMosaicId p1\<rparr>))
              else Inr (nemesisSignerAddress, p1)))"

text \<open>
  Lines 125-206: on an upgrade the mosaics of the old addresses and the nemesis of the old
  preset are taken over; on a fresh run the mosaics are distributed.
\<close>

definition nemesisStage ::
  "sdk \<Rightarrow> bool \<Rightarrow> Addresses option \<Rightarrow> ConfigPreset option \<Rightarrow> string \<Rightarrow>
   Addresses \<times> ConfigPreset \<times> rng \<Rightarrow> error + (Addresses \<times> ConfigPreset \<times> rng)" where
  "nemesisStage s shouldCreate oldAddresses oldPresetData nemesisSignerAddress st =
     (case st of (addresses, presetData, g) \<Rightarrow>
        if shouldCreate
        then (case oldAddresses of
                Some oldA \<Rightarrow>
                  (case oldPresetData of
                     None \<Rightarrow> Inl OldPresetDataMustBeDefined
                   | Some oldP \<Rightarrow>
                       Inr (addresses\<lparr>mosaics_A := mosaics_A oldA\<rparr>,
                            presetData\<lparr>nemesis := nemesis oldP\<rparr>, g))
              | None \<Rightarrow>
                  (case nemesis presetData of
                     None \<Rightarrow> Inl TypeErrorUndefined
                   | Some nem \<Rightarrow>
                       (case mosaics nem of
                          None \<Rightarrow> Inr st
                        | Some ms \<Rightarrow>
                            (case processMosaicsFrom s presetData
                                    (case nodes_A addresses of None \<Rightarrow> [] | Some ns \<Rightarrow> ns)
                                    nemesisSignerAddress (length ms) 0 ms g of
                               Inl err \<Rightarrow> Inl err
                             | Inr (ms', accs, g') \<Rightarrow>
                                 Inr (addresses\<lparr>mosaics_A := Some accs\<rparr>,
                                      presetData\<lparr>nemesis := Some (nem\<lparr>mosaics := Some ms'\<rparr>)\<rparr>,
                                      g')))))
        else Inr st)"

text \<open>
  Lines 49-123 in one: everything before the nemesis stage. The result holds the state,
  the value of \<^verbatim>\<open>shouldCreateNemesis\<close> (line 89) and the address of the nemesis signer.
\<close>

definition preNemesis ::
  "sdk \<Rightarrow> env \<Rightarrow> Addresses option \<Rightarrow> ConfigPreset \<Rightarrow> rng \<Rightarrow>
   (error + (bool \<times> string \<times> Addresses \<times> ConfigPreset \<times> rng)) option" where
  "preNemesis s e oldAddresses presetData g =
     (case initialAddresses s e oldAddresses presetData g of
        Inl err \<Rightarrow> Some (Inl err)
      | Inr (addresses, g1) \<Rightarrow>
          (case fillNamespaceRentalFeeSink s
                  (fillMosaicRentalFeeSink s
                     (fillHarvestNetworkFeeSink s (addresses, presetData, g1))) of
             (a2, p2, g2) \<Rightarrow>
               (let p3 = networkFields e a2 p2
                in case getPrivateKeySecurityMode e (privateKeySecurityMode p3) of
                     Inl err \<Rightarrow> Some (Inl err)
                   | Inr mode \<Rightarrow>
                       (case nemesisSignerStage s e mode oldAddresses (a2, p3, g2) of
                          None \<Rightarrow> None
                        | Some (Inl err) \<Rightarrow> Some (Inl err)
                        | Some (Inr (a4, p4, g4)) \<Rightarrow>
                            (case mosaicIdStage s p4 of
                               Inl err \<Rightarrow> Some (Inl err)
                             | Inr (nemesisSignerAddress, p5) \<Rightarrow>
                                 Some (Inr (shouldCreateNemesis e p3, nemesisSignerAddress,
                                            a4, p5, g4)))))))"

text \<open>
  \<^verbatim>\<open>ConfigLoader.generateRandomConfiguration(root, oldAddresses, oldPresetData, presetData)\<close>:
  the addresses it returns, the preset as it leaves it, and the trace of generated accounts.
\<close>

definition generateRandomConfiguration ::
  "sdk \<Rightarrow> env \<Rightarrow> Addresses option \<Rightarrow> ConfigPreset option \<Rightarrow> ConfigPreset \<Rightarrow> rng \<Rightarrow>
   (error + (Addresses \<times> ConfigPreset \<times> rng)) option" where
  "generateRandomConfiguration s e oldAddresses oldPresetData presetData g =
     (case preNemesis s e oldAddresses presetData g of
        None \<Rightarrow> None
      | Some (Inl err) \<Rightarrow> Some (Inl err)
      | Some (Inr (shouldCreate, nemesisSignerAddress, addresses, p, g')) \<Rightarrow>
          Some (nemesisStage s shouldCreate oldAddresses oldPresetData nemesisSignerAddress
                  (addresses, p, g')))"

section \<open>ConfigService.run and resolveNemesis (ConfigService.ts)\<close>

text \<open>
  The target folder as the run sees it: the contents of \<^verbatim>\<open>preset.yml\<close> and of
  \<^verbatim>\<open>addresses.yml\<close>, \<open>None\<close> for a file that does not exist.
\<close>

record ('p, 'a) target_folder =
  presetYml :: "'p option"
  addressesYml :: "'a option"

text \<open>
  \<^verbatim>\<open>path.join(dir, file)\<close> of Node.js, in its POSIX form: the non-empty arguments are
  joined by a slash and the result is normalised. The normalisation drops empty segments
  and \<^verbatim>\<open>.\<close> segments, lets a \<^verbatim>\<open>..\<close> segment remove the segment before it (or stay, in
  a relative path that has none), and keeps a leading and a trailing slash.
\<close>

fun splitSlash :: "string \<Rightarrow> string list" where
  "splitSlash [] = [[]]"
| "splitSlash (c # cs) =
     (if c = CHR ''/'' then [] # splitSlash cs
      else (case splitSlash cs of
              seg # segs \<Rightarrow> (c # seg) # segs
            | [] \<Rightarrow> [[c]]))"

fun normalizeSegments :: "bool \<Rightarrow> string list \<Rightarrow> string list \<Rightarrow> string list" where
  "normalizeSegments allowAboveRoot res [] = rev res"
| "normalizeSegments allowAboveRoot res (seg # segs) =
     (if seg = [] \<or> seg = ''.'' then normalizeSegments allowAboveRoot res segs
      else if seg = ''..''
      then (case res of
              lastSegment # res' \<Rightarrow>
                if lastSegment \<noteq> ''..'' then normalizeSegments allowAboveRoot res' segs
                else if allowAboveRoot then normalizeSegments allowAboveRoot (''..'' # res) segs
                else normalizeSegments allowAboveRoot res segs
            | [] \<Rightarrow>
                if allowAboveRoot then normalizeSegments allowAboveRoot [''..''] segs
                else normalizeSegments allowAboveRoot [] segs)
      else normalizeSegments allowAboveRoot (seg # res) segs)"

fun joinSlash :: "string list \<Rightarrow> string" where
  "joinSlash [] = []"
| "joinSlash [seg] = seg"
| "joinSlash (seg # segs) = seg @ ''/'' @ joinSlash segs"

definition normalizePath :: "string \<Rightarrow> string" where
  "normalizePath path =
     (if path = [] then ''.''
      else let isAbsolute = (hd path = CHR ''/'');
               trailingSeparator = (last path = CHR ''/'');
               p = joinSlash (normalizeSegments (\<not> isAbsolute) [] (splitSlash path))
           in if p = [] then (if isAbsolute then ''/'' else if trailingSeparator then ''./'' else ''.'')
              else (if isAbsolute then ''/'' else []) @ p @ (if trailingSeparator then ''/'' else []))"

definition joinPath :: "string \<Rightarrow> string \<Rightarrow> string" where
  "joinPath dir file =
     (let joined = (if dir = [] then file else if file = [] then dir else dir @ ''/'' @ file)
      in if joined = [] then ''.'' else normalizePath joined)"

definition getGeneratedPresetLocation :: "string \<Rightarrow> string" where
  "getGeneratedPresetLocation target = joinPath target ''preset.yml''"

definition getGeneratedAddressLocation :: "string \<Rightarrow> string" where
  "getGeneratedAddressLocation target = joinPath target ''addresses.yml''"

text \<open>The loaders of ConfigLoader.ts (lines 648-675 and 719-729).\<close>

definition loadExistingPresetDataIfPreset :: "('p, 'a) target_folder \<Rightarrow> 'p option" where
  "loadExistingPresetDataIfPreset folder = presetYml folder"

definition loadExistingPresetData :: "string \<Rightarrow> ('p, 'a) target_folder \<Rightarrow> error + 'p" where
  "loadExistingPresetData target folder =
     (case loadExistingPresetDataIfPreset folder of
        None \<Rightarrow> Inl (FileDoesNotExist (getGeneratedPresetLocation target))
      | Some presetData \<Rightarrow> Inr presetData)"

definition loadExistingAddressesIfPreset ::
  "('a \<Rightarrow> 'p \<Rightarrow> 'a) \<Rightarrow> string \<Rightarrow> ('p, 'a) target_folder \<Rightarrow> error + 'a option" where
  "loadExistingAddressesIfPreset migrateAddresses target folder =
     (case addressesYml folder of
        Some a \<Rightarrow>
          (case loadExistingPresetData target folder of
             Inl err \<Rightarrow> Inl err
           | Inr presetData \<Rightarrow> Inr (Some (migrateAddresses a presetData)))
      | None \<Rightarrow> Inr None)"

definition loadExistingAddresses ::
  "('a \<Rightarrow> 'p \<Rightarrow> 'a) \<Rightarrow> string \<Rightarrow> ('p, 'a) target_folder \<Rightarrow> error + 'a" where
  "loadExistingAddresses migrateAddresses target folder =
     (case loadExistingAddressesIfPreset migrateAddresses target folder of
        Inl err \<Rightarrow> Inl err
      | Inr None \<Rightarrow> Inl (FileDoesNotExist (getGeneratedAddressLocation target))
      | Inr (Some addresses) \<Rightarrow> Inr addresses)"

text \<open>
  \<^verbatim>\<open>ConfigService.run\<close> (lines 124-186). \<^verbatim>\<open>params.reset\<close> deletes the target folder
  first (\<^verbatim>\<open>BootstrapUtils.deleteFolder(target)\<close>, taken to remove the folder with both
  files). Lines 148-176, from \<^verbatim>\<open>resolveCurrentPresetData\<close> to the two
  \<^verbatim>\<open>writeYaml\<close>, are the parameter \<open>generate\<close>: all generation and persistence
  happens there.
\<close>

datatype ('p, 'a, 'r) run_result = Existing 'p 'a | Generated 'r

definition run ::
  "bool \<Rightarrow> bool \<Rightarrow> ('a \<Rightarrow> 'p \<Rightarrow> 'a) \<Rightarrow> string \<Rightarrow> ('p, 'a) target_folder \<Rightarrow>
   ('p option \<Rightarrow> 'a option \<Rightarrow> error + 'r) \<Rightarrow> error + ('p, 'a, 'r) run_result" where
  "run reset upgrade migrateAddresses target folder0 generate =
     (let folder = (if reset then \<lparr>presetYml = None, addressesYml = None\<rparr> else folder0)
      in if presetYml folder \<noteq> None \<and> \<not> upgrade
         then (case loadExistingPresetData target folder of
                 Inl err \<Rightarrow> Inl err
               | Inr presetData \<Rightarrow>
                   (case loadExistingAddresses migrateAddresses target folder of
                      Inl err \<Rightarrow> Inl err
                    | Inr addresses \<Rightarrow> Inr (Existing presetData addresses)))
         else (let oldPresetData = loadExistingPresetDataIfPreset folder
               in case loadExistingAddressesIfPreset migrateAddresses target folder of
                    Inl err \<Rightarrow> Inl err
                  | Inr oldAddresses \<Rightarrow>
                      if oldAddresses \<noteq> None \<and> oldPresetData = None
                      then Inl (CannotUpgradeWithout (getGeneratedPresetLocation target))
                      else if oldAddresses = None \<and> oldPresetData \<noteq> None
                      then Inl (CannotUpgradeWithout (getGeneratedAddressLocation target))
                      else (case generate oldPresetData oldAddresses of
                              Inl err \<Rightarrow> Inl err
                            | Inr r \<Rightarrow> Inr (Generated r))))"

text \<open>The file an error message names.\<close>

fun namedFile :: "error \<Rightarrow> string option" where
  "namedFile (CannotUpgradeWithout f) = Some f"
| "namedFile (FileDoesNotExist f) = Some f"
| "namedFile e = None"

text \<open>
  \<^verbatim>\<open>ConfigService.resolveNemesis\<close> (lines 189-240), as the action it takes on the
  seed folder of the target.
\<close>

datatype nemesis_action =
    NothingOnUpgrade
  | GenerateNemesisConfig
  | CopyCustomSeed string
  | CopyNetworkSeed string

definition resolveNemesis :: "env \<Rightarrow> ConfigPreset \<Rightarrow> bool \<Rightarrow> error + nemesis_action" where
  "resolveNemesis e presetData isUpgrade =
     (if shouldCreateNemesis e presetData
      then (if isUpgrade then Inr NothingOnUpgrade else Inr GenerateNemesisConfig)
      else if truthy (nemesisSeedFolder presetData)
      then Inr (CopyCustomSeed (orDefault (nemesisSeedFolder presetData) []))
      else if isYmlFile e (preset presetData)
      then Inl (SeedForPresetNotFound (preset presetData))
      else if seedExists e (preset presetData)
      then Inr (CopyNetworkSeed (preset presetData))
      else Inl SeedNotFound)"

section \<open>Traces of generated accounts\<close>

text \<open>A stretch of the trace that holds keys of roles only: no sink, no free account of a mosaic.\<close>

definition keysOnly :: "rng \<Rightarrow> bool" where
  "keysOnly es = (\<forall>ev\<in>set es. \<exists>k. ev = GenKey k)"


section \<open>Concrete values for evaluating the definitions\<close>

definition exampleEnv :: env where
  "exampleEnv =
     \<lparr>getPrivateKeySecurityMode = (\<lambda>m. Inr ENCRYPT), isYmlFile = (\<lambda>f. False),
      seedExists = (\<lambda>f. False), getNetworkIdentifier = (\<lambda>n. ''testnet''),
      getNetworkName = (\<lambda>n. ''testnet''), promptResponses = []\<rparr>"

text \<open>A template engine that knows one template, \<^verbatim>\<open>{{$index}}\<close>, and copies any other string.\<close>

definition exampleLib :: lib where
  "exampleLib =
     \<lparr>runTemplate = (\<lambda>str c.
        if str = ''{{$index}}''
        then (case c ''$index'' of
                Some (JNum n) \<Rightarrow> Inr (digitsOf (nat n))
              | _ \<Rightarrow> Inl (TemplateError str))
        else Inr str),
      toFinite = (\<lambda>v. 0)\<rparr>"

definition exampleNode :: NodePreset where
  "exampleNode =
     \<lparr>name_NP = None, friendlyName_NP = None, roles_NP = None, syncsource = True, api = False,
      voting = False, harvesting = True, rewardProgram = None, nodeUseRemoteAccount_NP = False,
      mainPrivateKey = None, mainPublicKey = None, transportPrivateKey = None,
      transportPublicKey = None, remotePrivateKey = None, remotePublicKey = None,
      vrfPrivateKey = None, vrfPublicKey = None, agentPrivateKey = None, agentPublicKey = None,
      balances = None\<rparr>"

definition exampleMosaic :: MosaicPreset where
  "exampleMosaic =
     \<lparr>name_MP = ''currency'', supply_MP = 100, accounts_MP = Some (AccountsNumber 3),
      currencyDistributions = Some [\<lparr>address_D = ''TX'', amount = 10\<rparr>]\<rparr>"

definition examplePreset :: ConfigPreset where
  "examplePreset =
     \<lparr>preset = ''bootstrap'', networkType = Some 152, nemesisGenerationHashSeed = None,
      sinkAddress = None, nodes = Some [exampleNode],
      harvestNetworkFeeSinkAddress = None, mosaicRentalFeeSinkAddress = None,
      namespaceRentalFeeSinkAddress = None, networkIdentifier = None, networkName = None,
      privateKeySecurityMode = None, nodeUseRemoteAccount = False,
      nemesis = Some \<lparr>nemesisSignerPrivateKey = None, mosaics = Some [exampleMosaic]\<rparr>,
      nemesisSeedFolder = None, nemesisSignerPublicKey = None, currencyMosaicId = None,
      harvestingMosaicId = None, maxHarvesterBalance = 20\<rparr>"

definition exampleStored :: ConfigAccount where
  "exampleStored = \<lparr>privateKey = Some ''AB'', publicKey = ''PAB'', address = ''TPAB''\<rparr>"

definition succeeded :: "(error + 'a) option \<Rightarrow> bool" where
  "succeeded r = (case r of Some (Inr x) \<Rightarrow> True | _ \<Rightarrow> False)"

definition exampleExplicitMosaic :: MosaicPreset where
  "exampleExplicitMosaic =
     \<lparr>name_MP = ''currency'', supply_MP = 10, accounts_MP = None,
      currencyDistributions = Some [\<lparr>address_D = ''TX'', amount = 10\<rparr>]\<rparr>"

definition exampleExplicit :: ConfigPreset where
  "exampleExplicit =
     examplePreset\<lparr>nodes := None, sinkAddress := Some ''TS'',
       harvestNetworkFeeSinkAddress := Some ''TS'', mosaicRentalFeeSinkAddress := Some ''TS'',
       namespaceRentalFeeSinkAddress := Some ''TS'', nemesisGenerationHashSeed := Some ''AA'',
       nemesis := Some \<lparr>nemesisSignerPrivateKey = Some ''AB'', mosaics = Some [exampleExplicitMosaic]\<rparr>\<rparr>"


definition exampleAccounts :: "ConfigAccount list" where
  "exampleAccounts =
     [\<lparr>privateKey = Some ''A'', publicKey = ''PA'', address = ''TPA''\<rparr>,
      \<lparr>privateKey = Some ''B'', publicKey = ''PB'', address = ''TPB''\<rparr>,
      \<lparr>privateKey = Some ''C'', publicKey = ''PC'', address = ''TPC''\<rparr>]"

definition exampleOldAddresses :: Addresses where
  "exampleOldAddresses =
     \<lparr>version_A = 2, networkType_A = 152, nemesisGenerationHashSeed_A = Some ''AA'',
      sinkAddress_A = Some ''TS'', nodes_A = None, nemesisSigner = Some exampleStored,
      mosaics_A = Some [\<lparr>id_MA = ''0X'', name_MA = ''currency'', accounts_MA = []\<rparr>]\<rparr>"

definition exampleOldPreset :: ConfigPreset where
  "exampleOldPreset =
     examplePreset\<lparr>nemesis := Some \<lparr>nemesisSignerPrivateKey = None, mosaics = Some []\<rparr>\<rparr>"

definition exampleLayerA :: layer where
  "exampleLayerA = [(''a'', JNum 1), (''inflation'', JObj [(''starting-at-height-1'', JNum 100)])]"

definition exampleLayerB :: layer where
  "exampleLayerB = [(''inflation'', JObj [(''starting-at-height-5'', JNum 50)])]"

definition exampleLayerEmpty :: layer where
  "exampleLayerEmpty = [(''inflation'', JObj [])]"

definition exampleServices :: "jv list" where
  "exampleServices =
     [JObj [(''name'', JStr ''db'')],
      JObj [(''name'', JStr ''{{$index}}''), (''repeat'', JNum 2)],
      JObj [(''name'', JStr ''faucet''), (''repeat'', JNum 0)]]"





text \<open>A stored account whose public key is in lower case.\<close>

definition exampleLowerStored :: ConfigAccount where
  "exampleLowerStored = \<lparr>privateKey = None, publicKey = ''pab'', address = ''Tpab''\<rparr>"

section \<open>Properties of generateAccount\<close>

lemma example_toUpperCase: "toUpperCase ''AB'' = ''AB''" "toUpperCase ''PAB'' = ''PAB''" "toUpperCase ''ab'' = ''AB''"
  "toUpperCase ''pab'' = ''PAB''" "toUpperCase ''CD'' = ''CD''"
  by (simp_all add: toUpperCase_def upperChar_def)

lemma toUpperCase_Nil [simp]: "(toUpperCase k = []) = (k = [])"
  by (simp add: toUpperCase_def)

lemma newAccountOf_None: "(newAccountOf priv pub = None) = (\<not> truthy priv \<and> \<not> truthy pub)"
  by (cases priv; cases pub) (auto simp: newAccountOf_def getAccount_def)

lemma oldAccountOf_private:
  "privateKey a = Some k \<Longrightarrow> k \<noteq> [] \<Longrightarrow> oldAccountOf (Some a) = Some (Account (toUpperCase k))"
  by (simp add: oldAccountOf_def getAccount_def)

lemma oldAccountOf_public:
  "\<not> truthy (privateKey a) \<Longrightarrow> publicKey a \<noteq> [] \<Longrightarrow>
     oldAccountOf (Some a) = Some (PublicAccount (toUpperCase (publicKey a)))"
  by (cases "privateKey a") (auto simp: oldAccountOf_def getAccount_def)

lemma oldAccountOf_None:
  "(oldAccountOf oldStored = None) =
     (case oldStored of None \<Rightarrow> True | Some a \<Rightarrow> \<not> truthy (privateKey a) \<and> publicKey a = [])"
  by (cases oldStored; cases "privateKey (the oldStored)") (auto simp: oldAccountOf_def getAccount_def)

lemma reused_is_stored:
  assumes "oldAccountOf (Some a) = Some acc"
  shows "(toConfig s acc = a) = storedForm s a"
proof (cases "privateKey a")
  case None
  with assms have acc: "acc = PublicAccount (toUpperCase (publicKey a))" and ne: "publicKey a \<noteq> []"
    by (auto simp: oldAccountOf_def getAccount_def split: if_splits)
  show ?thesis
  proof
    assume e: "toConfig s acc = a"
    then have "publicKey (toConfig s acc) = publicKey a" by simp
    then have "toUpperCase (publicKey a) = publicKey a" by (simp add: acc)
    with e acc None ne show "storedForm s a" by (simp add: storedForm_def)
  next
    assume "storedForm s a"
    with None acc show "toConfig s acc = a" by (simp add: storedForm_def)
  qed
next
  case (Some k)
  show ?thesis
  proof (cases "k = []")
    case True
    with Some assms have acc: "acc = PublicAccount (toUpperCase (publicKey a))"
      by (auto simp: oldAccountOf_def getAccount_def split: if_splits)
    have "privateKey (toConfig s acc) \<noteq> privateKey a" using Some acc by simp
    then have "toConfig s acc \<noteq> a" by auto
    moreover have "\<not> storedForm s a" using Some True by (simp add: storedForm_def)
    ultimately show ?thesis by simp
  next
    case False
    with Some assms have acc: "acc = Account (toUpperCase k)"
      by (auto simp: oldAccountOf_def getAccount_def split: if_splits)
    show ?thesis
    proof
      assume e: "toConfig s acc = a"
      then have "privateKey (toConfig s acc) = privateKey a" by simp
      then have "toUpperCase k = k" using Some by (simp add: acc)
      with e acc Some False show "storedForm s a" by (simp add: storedForm_def)
    next
      assume "storedForm s a"
      with Some acc show "toConfig s acc = a" by (simp add: storedForm_def)
    qed
  qed
qed

text \<open>
  Claim C6. The decision table of \<^verbatim>\<open>generateAccount\<close>. With an old stored account and
  nothing supplied, the result is the account the sdk derives again from the old private
  key in upper case or, when there is none, from the old public key in upper case; it is
  the stored account itself exactly when that has the form \<^verbatim>\<open>toConfig\<close> writes. With a
  supplied key and no old account, the result is the supplied account, derived in the same
  way from the supplied private key or else from the supplied public key. With both and the
  same address, the result has that address and the supplied public key, and its private
  key is the supplied one if there is one, else the old one if there is one. With both and
  different addresses, the result is the supplied account. No case raises an error or
  generates an account.
\<close>

theorem generateAccount_decision_table:
  "(oldStored = Some a \<and> privateKey a = Some k \<and> k \<noteq> [] \<and> \<not> truthy priv \<and> \<not> truthy pub \<longrightarrow>
      generateAccount s mode keyName oldStored priv pub g =
        Inr (\<lparr>privateKey = Some (toUpperCase k), publicKey = publicKeyOf s (toUpperCase k),
              address = addressOf s (publicKeyOf s (toUpperCase k))\<rparr>, g)) \<and>
   (oldStored = Some a \<and> \<not> truthy (privateKey a) \<and> publicKey a \<noteq> [] \<and>
    \<not> truthy priv \<and> \<not> truthy pub \<longrightarrow>
      generateAccount s mode keyName oldStored priv pub g =
        Inr (\<lparr>privateKey = None, publicKey = toUpperCase (publicKey a),
              address = addressOf s (toUpperCase (publicKey a))\<rparr>, g)) \<and>
   (oldStored = Some a \<and> (truthy (privateKey a) \<or> publicKey a \<noteq> []) \<and>
    \<not> truthy priv \<and> \<not> truthy pub \<longrightarrow>
      (generateAccount s mode keyName oldStored priv pub g = Inr (a, g)) = storedForm s a) \<and>
   (oldAccountOf oldStored = None \<and> priv = Some k \<and> k \<noteq> [] \<longrightarrow>
      generateAccount s mode keyName oldStored priv pub g =
        Inr (\<lparr>privateKey = Some (toUpperCase k), publicKey = publicKeyOf s (toUpperCase k),
              address = addressOf s (publicKeyOf s (toUpperCase k))\<rparr>, g)) \<and>
   (oldAccountOf oldStored = None \<and> \<not> truthy priv \<and> pub = Some q \<and> q \<noteq> [] \<longrightarrow>
      generateAccount s mode keyName oldStored priv pub g =
        Inr (\<lparr>privateKey = None, publicKey = toUpperCase q, address = addressOf s (toUpperCase q)\<rparr>, g)) \<and>
   (oldAccountOf oldStored = Some oldAccount \<and> newAccountOf priv pub = Some newAccount \<and>
    accountAddress s oldAccount = accountAddress s newAccount \<longrightarrow>
      (\<exists>r. generateAccount s mode keyName oldStored priv pub g = Inr (r, g) \<and>
           address r = accountAddress s newAccount \<and>
           publicKey r = accountPublicKey s newAccount \<and>
           privateKey r = (case privateKey (toConfig s newAccount) of
                             Some k \<Rightarrow> Some k
                           | None \<Rightarrow> privateKey (toConfig s oldAccount)))) \<and>
   (oldAccountOf oldStored = Some oldAccount \<and> newAccountOf priv pub = Some newAccount \<and>
    accountAddress s oldAccount \<noteq> accountAddress s newAccount \<longrightarrow>
      generateAccount s mode keyName oldStored priv pub g = Inr (toConfig s newAccount, g))"
proof (intro conjI impI)
  assume h: "oldStored = Some a \<and> privateKey a = Some k \<and> k \<noteq> [] \<and> \<not> truthy priv \<and> \<not> truthy pub"
  then have "oldAccountOf oldStored = Some (Account (toUpperCase k))" by (simp add: oldAccountOf_private)
  moreover from h have "newAccountOf priv pub = None" by (simp add: newAccountOf_None)
  ultimately show "generateAccount s mode keyName oldStored priv pub g =
        Inr (\<lparr>privateKey = Some (toUpperCase k), publicKey = publicKeyOf s (toUpperCase k),
              address = addressOf s (publicKeyOf s (toUpperCase k))\<rparr>, g)"
    by (simp add: generateAccount_def)
next
  assume h: "oldStored = Some a \<and> \<not> truthy (privateKey a) \<and> publicKey a \<noteq> [] \<and>
    \<not> truthy priv \<and> \<not> truthy pub"
  then have "oldAccountOf oldStored = Some (PublicAccount (toUpperCase (publicKey a)))"
    by (simp add: oldAccountOf_public)
  moreover from h have "newAccountOf priv pub = None" by (simp add: newAccountOf_None)
  ultimately show "generateAccount s mode keyName oldStored priv pub g =
        Inr (\<lparr>privateKey = None, publicKey = toUpperCase (publicKey a),
              address = addressOf s (toUpperCase (publicKey a))\<rparr>, g)"
    by (simp add: generateAccount_def)
next
  assume h: "oldStored = Some a \<and> (truthy (privateKey a) \<or> publicKey a \<noteq> []) \<and>
    \<not> truthy priv \<and> \<not> truthy pub"
  then have "oldAccountOf oldStored \<noteq> None" by (auto simp: oldAccountOf_None)
  then obtain acc where acc: "oldAccountOf oldStored = Some acc" by auto
  from h have n: "newAccountOf priv pub = None" by (simp add: newAccountOf_None)
  from acc n have "generateAccount s mode keyName oldStored priv pub g = Inr (toConfig s acc, g)"
    by (simp add: generateAccount_def)
  moreover from acc h have "(toConfig s acc = a) = storedForm s a" by (intro reused_is_stored) simp
  ultimately show "(generateAccount s mode keyName oldStored priv pub g = Inr (a, g)) = storedForm s a"
    by simp
next
  assume h: "oldAccountOf oldStored = None \<and> priv = Some k \<and> k \<noteq> []"
  then have "newAccountOf priv pub = Some (Account (toUpperCase k))"
    by (simp add: newAccountOf_def getAccount_def)
  with h show "generateAccount s mode keyName oldStored priv pub g =
        Inr (\<lparr>privateKey = Some (toUpperCase k), publicKey = publicKeyOf s (toUpperCase k),
              address = addressOf s (publicKeyOf s (toUpperCase k))\<rparr>, g)"
    by (simp add: generateAccount_def)
next
  assume h: "oldAccountOf oldStored = None \<and> \<not> truthy priv \<and> pub = Some q \<and> q \<noteq> []"
  then have "newAccountOf priv pub = Some (PublicAccount (toUpperCase q))"
    by (cases priv) (auto simp: newAccountOf_def getAccount_def)
  with h show "generateAccount s mode keyName oldStored priv pub g =
        Inr (\<lparr>privateKey = None, publicKey = toUpperCase q, address = addressOf s (toUpperCase q)\<rparr>, g)"
    by (simp add: generateAccount_def)
next
  assume "oldAccountOf oldStored = Some oldAccount \<and> newAccountOf priv pub = Some newAccount \<and>
    accountAddress s oldAccount = accountAddress s newAccount"
  then show "\<exists>r. generateAccount s mode keyName oldStored priv pub g = Inr (r, g) \<and>
           address r = accountAddress s newAccount \<and>
           publicKey r = accountPublicKey s newAccount \<and>
           privateKey r = (case privateKey (toConfig s newAccount) of
                             Some k \<Rightarrow> Some k
                           | None \<Rightarrow> privateKey (toConfig s oldAccount))"
    by (cases newAccount; cases oldAccount)
       (simp_all add: generateAccount_def spread_def accountAddress_def)
next
  assume "oldAccountOf oldStored = Some oldAccount \<and> newAccountOf priv pub = Some newAccount \<and>
    accountAddress s oldAccount \<noteq> accountAddress s newAccount"
  then show "generateAccount s mode keyName oldStored priv pub g = Inr (toConfig s newAccount, g)"
    by (simp add: generateAccount_def)
qed

theorem generateAccount_decision_table_witness:
  "generateAccount exampleSdk ENCRYPT Main (Some exampleStored) None None [] = Inr (exampleStored, []) \<and>
   generateAccount exampleSdk ENCRYPT Main (Some exampleLowerStored) None None [] =
     Inr (\<lparr>privateKey = None, publicKey = ''PAB'', address = ''TPAB''\<rparr>, []) \<and>
   generateAccount exampleSdk ENCRYPT Main (Some exampleLowerStored) None None [] \<noteq>
     Inr (exampleLowerStored, []) \<and>
   generateAccount exampleSdk PROMPT_ALL Main None (Some ''ab'') None [] =
     Inr (\<lparr>privateKey = Some ''AB'', publicKey = ''PAB'', address = ''TPAB''\<rparr>, []) \<and>
   generateAccount exampleSdk PROMPT_ALL Main None None (Some ''pab'') [] =
     Inr (\<lparr>privateKey = None, publicKey = ''PAB'', address = ''TPAB''\<rparr>, []) \<and>
   (\<exists>r. generateAccount exampleSdk PROMPT_ALL Main (Some exampleStored) None (Some ''pab'') [] = Inr (r, []) \<and>
        address r = ''TPAB'' \<and> publicKey r = ''PAB'' \<and> privateKey r = Some ''AB'') \<and>
   generateAccount exampleSdk PROMPT_ALL Main (Some exampleStored) (Some ''CD'') None [] =
     Inr (\<lparr>privateKey = Some ''CD'', publicKey = ''PCD'', address = ''TPCD''\<rparr>, [])"
proof -
  have sf: "storedForm exampleSdk exampleStored"
    by (simp add: storedForm_def exampleStored_def exampleSdk_def example_toUpperCase)
  have nsf: "\<not> storedForm exampleSdk exampleLowerStored"
    by (simp add: storedForm_def exampleLowerStored_def example_toUpperCase)
  have old: "oldAccountOf (Some exampleStored) = Some (Account ''AB'')"
    by (simp add: oldAccountOf_def getAccount_def exampleStored_def example_toUpperCase)
  have n2: "newAccountOf None (Some ''pab'') = Some (PublicAccount ''PAB'')"
    by (simp add: newAccountOf_def getAccount_def example_toUpperCase)
  have n3: "newAccountOf (Some ''CD'') None = Some (Account ''CD'')"
    by (simp add: newAccountOf_def getAccount_def example_toUpperCase)
  have o0: "oldAccountOf None = None" by (simp add: oldAccountOf_def getAccount_def)
  note t = generateAccount_decision_table
  have h1: "Some exampleStored = Some exampleStored \<and> privateKey exampleStored = Some ''AB'' \<and>
      ''AB'' \<noteq> [] \<and> \<not> truthy None \<and> \<not> truthy None" by (simp add: exampleStored_def)
  from t[THEN conjunct1, rule_format, OF h1, of exampleSdk ENCRYPT Main "[]"]
  have c1: "generateAccount exampleSdk ENCRYPT Main (Some exampleStored) None None [] = Inr (exampleStored, [])"
    by (simp add: exampleStored_def exampleSdk_def example_toUpperCase)
  have h2: "Some exampleLowerStored = Some exampleLowerStored \<and> \<not> truthy (privateKey exampleLowerStored) \<and>
      publicKey exampleLowerStored \<noteq> [] \<and> \<not> truthy None \<and> \<not> truthy None"
    by (simp add: exampleLowerStored_def)
  from t[THEN conjunct2, THEN conjunct1, rule_format, OF h2, of exampleSdk ENCRYPT Main "[]"]
  have c2: "generateAccount exampleSdk ENCRYPT Main (Some exampleLowerStored) None None [] =
     Inr (\<lparr>privateKey = None, publicKey = ''PAB'', address = ''TPAB''\<rparr>, [])"
    by (simp add: exampleLowerStored_def exampleSdk_def example_toUpperCase)
  have h3: "Some exampleLowerStored = Some exampleLowerStored \<and>
      (truthy (privateKey exampleLowerStored) \<or> publicKey exampleLowerStored \<noteq> []) \<and>
      \<not> truthy None \<and> \<not> truthy None"
    by (simp add: exampleLowerStored_def)
  from t[THEN conjunct2, THEN conjunct2, THEN conjunct1, rule_format, OF h3, of exampleSdk ENCRYPT Main "[]"] nsf
  have c2': "generateAccount exampleSdk ENCRYPT Main (Some exampleLowerStored) None None [] \<noteq>
     Inr (exampleLowerStored, [])" by simp
  have h4: "oldAccountOf None = None \<and> Some ''ab'' = Some ''ab'' \<and> ''ab'' \<noteq> []" using o0 by simp
  from t[THEN conjunct2, THEN conjunct2, THEN conjunct2, THEN conjunct1, rule_format, OF h4,
         of exampleSdk PROMPT_ALL Main None "[]"]
  have c3: "generateAccount exampleSdk PROMPT_ALL Main None (Some ''ab'') None [] =
     Inr (\<lparr>privateKey = Some ''AB'', publicKey = ''PAB'', address = ''TPAB''\<rparr>, [])"
    by (simp add: exampleSdk_def example_toUpperCase)
  have h5: "oldAccountOf None = None \<and> \<not> truthy None \<and> Some ''pab'' = Some ''pab'' \<and> ''pab'' \<noteq> []"
    using o0 by simp
  from t[THEN conjunct2, THEN conjunct2, THEN conjunct2, THEN conjunct2, THEN conjunct1, rule_format, OF h5,
         of exampleSdk PROMPT_ALL Main "[]"]
  have c4: "generateAccount exampleSdk PROMPT_ALL Main None None (Some ''pab'') [] =
     Inr (\<lparr>privateKey = None, publicKey = ''PAB'', address = ''TPAB''\<rparr>, [])"
    by (simp add: exampleSdk_def example_toUpperCase)
  have h6: "oldAccountOf (Some exampleStored) = Some (Account ''AB'') \<and>
      newAccountOf None (Some ''pab'') = Some (PublicAccount ''PAB'') \<and>
      accountAddress exampleSdk (Account ''AB'') = accountAddress exampleSdk (PublicAccount ''PAB'')"
    using old n2 by (simp add: accountAddress_def exampleSdk_def)
  from t[THEN conjunct2, THEN conjunct2, THEN conjunct2, THEN conjunct2, THEN conjunct2, THEN conjunct1,
         rule_format, OF h6, of PROMPT_ALL Main "[]"]
  have c5: "\<exists>r. generateAccount exampleSdk PROMPT_ALL Main (Some exampleStored) None (Some ''pab'') [] = Inr (r, []) \<and>
        address r = ''TPAB'' \<and> publicKey r = ''PAB'' \<and> privateKey r = Some ''AB''"
    by (simp add: exampleSdk_def accountAddress_def)
  have h7: "oldAccountOf (Some exampleStored) = Some (Account ''AB'') \<and>
      newAccountOf (Some ''CD'') None = Some (Account ''CD'') \<and>
      accountAddress exampleSdk (Account ''AB'') \<noteq> accountAddress exampleSdk (Account ''CD'')"
    using old n3 by (simp add: accountAddress_def exampleSdk_def)
  from t[THEN conjunct2, THEN conjunct2, THEN conjunct2, THEN conjunct2, THEN conjunct2, THEN conjunct2,
         rule_format, OF h7, of PROMPT_ALL Main "[]"]
  have c6: "generateAccount exampleSdk PROMPT_ALL Main (Some exampleStored) (Some ''CD'') None [] =
     Inr (\<lparr>privateKey = Some ''CD'', publicKey = ''PCD'', address = ''TPCD''\<rparr>, [])"
    by (simp add: exampleSdk_def)
  from c1 c2 c2' c3 c4 c5 c6 show ?thesis by (intro conjI)
qed

text \<open>
  An old account stored with a lower-case public key and the address written for it does
  not come back verbatim: its key comes back in upper case, with the address the sdk
  derives from that.
\<close>

theorem old_account_not_verbatim_counterexample:
  "generateAccount exampleSdk ENCRYPT Main
     (Some \<lparr>privateKey = None, publicKey = ''pab'', address = ''Tpab''\<rparr>) None None [] =
     Inr (\<lparr>privateKey = None, publicKey = ''PAB'', address = ''TPAB''\<rparr>, []) \<and>
   \<lparr>privateKey = None, publicKey = ''PAB'', address = ''TPAB''\<rparr> \<noteq>
     \<lparr>privateKey = None, publicKey = ''pab'', address = ''Tpab''\<rparr>"
  by (simp add: generateAccount_def oldAccountOf_def newAccountOf_def getAccount_def
        example_toUpperCase exampleSdk_def)

text \<open>
  Claim C7. With neither an old account nor a supplied key, \<^verbatim>\<open>generateAccount\<close> raises
  the user-facing error exactly for the role Main under PROMPT_MAIN, PROMPT_MAIN_TRANSPORT
  or PROMPT_ALL, for the role Transport under PROMPT_MAIN_TRANSPORT or PROMPT_ALL, and for
  any other role under PROMPT_ALL. In every other case it returns the next generated
  account; on the error no account is returned and none is generated.
\<close>

theorem generateAccount_generation_policy:
  assumes "oldAccountOf oldStored = None" and "newAccountOf priv pub = None"
  shows "generateAccount s mode keyName oldStored priv pub g =
     (if (keyName = Main \<and> mode \<in> {PROMPT_MAIN, PROMPT_MAIN_TRANSPORT, PROMPT_ALL}) \<or>
         (keyName = Transport \<and> mode \<in> {PROMPT_MAIN_TRANSPORT, PROMPT_ALL}) \<or>
         (keyName \<noteq> Main \<and> keyName \<noteq> Transport \<and> mode = PROMPT_ALL)
      then Inl (CannotBeGenerated keyName mode)
      else Inr (toConfig s (Account (newPrivateKey s (length g))), g @ [GenKey keyName])) \<and>
     known (CannotBeGenerated keyName mode)"
  using assms by (cases mode; cases keyName; simp add: generateAccount_def generateNewAccount_def)

theorem generateAccount_generation_policy_witness:
  "generateAccount exampleSdk PROMPT_ALL Main None None None [] = Inl (CannotBeGenerated Main PROMPT_ALL) \<and>
   known (CannotBeGenerated Main PROMPT_ALL) \<and>
   generateAccount exampleSdk PROMPT_MAIN Transport None None None [] =
     Inr (\<lparr>privateKey = Some ''F'', publicKey = ''PF'', address = ''TPF''\<rparr>, [GenKey Transport])"
proof -
  have o0: "oldAccountOf None = None" by (simp add: oldAccountOf_def getAccount_def)
  have n0: "newAccountOf None None = None" by (simp add: newAccountOf_def getAccount_def)
  show ?thesis
    using generateAccount_generation_policy[OF o0 n0, of exampleSdk PROMPT_ALL Main "[]"]
      generateAccount_generation_policy[OF o0 n0, of exampleSdk PROMPT_MAIN Transport "[]"]
    by (simp add: exampleSdk_def)
qed

section \<open>Auxiliary lemmas: results of the stages\<close>

lemma case_sum_Inr_iff:
  "((case m of Inl e \<Rightarrow> Inl e | Inr x \<Rightarrow> f x) = Inr y) = (\<exists>x. m = Inr x \<and> f x = Inr y)"
  by (cases m) auto

text \<open>The arithmetic of doubles on integers.\<close>

lemma bitLength_pos: "0 < n \<Longrightarrow> bitLength n = Suc (bitLength (n div 2))"
  by (subst bitLength.simps) simp

lemma bitLength_zero: "bitLength 0 = 0"
  by (subst bitLength.simps) simp

lemma bitLength_bounds: "0 < n \<Longrightarrow> 2 ^ (bitLength n - 1) \<le> n \<and> n < 2 ^ bitLength n"
proof (induction n rule: bitLength.induct)
  case (1 n)
  show ?case
  proof (cases "n div 2 = 0")
    case True
    with 1(2) have "n = 1" by presburger
    then show ?thesis by (simp add: bitLength_pos bitLength_zero)
  next
    case False
    with 1(2) have p: "0 < n div 2" by presburger
    have nle: "\<not> n \<le> 0" using 1(2) by simp
    from 1(1)[OF nle p] have ih: "2 ^ (bitLength (n div 2) - 1) \<le> n div 2" "n div 2 < 2 ^ bitLength (n div 2)"
      by simp_all
    from p have bp: "0 < bitLength (n div 2)" by (simp add: bitLength_pos)
    have e: "bitLength n = Suc (bitLength (n div 2))" using 1(2) by (rule bitLength_pos)
    from bp obtain j where j: "bitLength (n div 2) = Suc j" by (cases "bitLength (n div 2)") auto
    from ih j have "2 * 2 ^ j \<le> 2 * (n div 2)" by simp
    then have lo: "2 ^ Suc j \<le> n" by simp
    from ih(2) have "n div 2 + 1 \<le> 2 ^ Suc j" using j by simp
    then have "n < 2 * 2 ^ Suc j" by linarith
    with lo e j show ?thesis by simp
  qed
qed

lemma pow2_less_exp: "(2::int) ^ a < 2 ^ b \<Longrightarrow> a < b"
  by simp

lemma pow2_le_exp: "a \<le> b \<Longrightarrow> (2::int) ^ a \<le> 2 ^ b"
  by simp

lemma roundHalfEven_bounds:
  "p div q \<le> roundHalfEven p q \<and> roundHalfEven p q \<le> p div q + 1"
  by (simp add: roundHalfEven_def)

lemma roundHalfEven_up: "roundHalfEven p q \<noteq> p div q \<Longrightarrow> q \<le> 2 * (p mod q)"
  by (simp add: roundHalfEven_def split: if_splits)

lemma roundHalfEven_up': "q < 2 * (p mod q) \<Longrightarrow> roundHalfEven p q = p div q + 1"
  by (simp add: roundHalfEven_def)

lemma roundHalfEven_exact: "0 < q \<Longrightarrow> p mod q = 0 \<Longrightarrow> roundHalfEven p q = p div q"
  by (simp add: roundHalfEven_def)

lemma roundD_safe: "\<bar>x\<bar> < 2 ^ 53 \<Longrightarrow> roundD x = x"
  by (simp add: roundD_def)

lemma roundD_big:
  assumes "2 ^ 53 \<le> x"
  shows "2 ^ 53 \<le> roundD x"
proof -
  let ?L = "bitLength \<bar>x\<bar>"
  let ?e = "?L - 53"
  from assms have xp: "0 < \<bar>x\<bar>" "\<bar>x\<bar> = x" "sgn x = 1" by simp_all
  from bitLength_bounds[OF xp(1)] have b: "2 ^ (?L - 1) \<le> \<bar>x\<bar>" "\<bar>x\<bar> < 2 ^ ?L" by simp_all
  from b(2) have "x < 2 ^ ?L" using xp by simp
  with assms have "(2::int) ^ 53 < 2 ^ ?L" by linarith
  then have L: "53 < ?L" by (rule pow2_less_exp)
  then have L1: "?L - 1 = 52 + ?e" by simp
  from b(1) have "(2::int) ^ (?L - 1) \<le> x" using xp by simp
  then have "(2::int) ^ 52 * 2 ^ ?e \<le> x" unfolding L1 by (simp add: power_add)
  then have d: "(2::int) ^ 52 \<le> x div 2 ^ ?e"
    by (metis zero_less_numeral zero_less_power pos_le_divide_eq zdiv_mono1 nonzero_mult_div_cancel_right power_not_zero zero_neq_numeral)
  from roundHalfEven_bounds[of x "2 ^ ?e"] d have r: "(2::int) ^ 52 \<le> roundHalfEven x (2 ^ ?e)" by linarith
  from L have "1 \<le> ?e" by simp
  then have "(2::int) ^ 1 \<le> 2 ^ ?e" by (rule pow2_le_exp)
  then have "(2::int) ^ 52 * 2 \<le> roundHalfEven x (2 ^ ?e) * 2 ^ ?e"
    using r by (intro mult_mono) simp_all
  moreover have "roundD x = roundHalfEven x (2 ^ ?e) * 2 ^ ?e"
    using assms xp by (simp add: roundD_def)
  ultimately show ?thesis by simp
qed

lemma roundD_uminus: "roundD (- x) = - roundD x"
  by (simp add: roundD_def)

lemma roundD_small: "roundD x < 2 ^ 53 \<Longrightarrow> 0 \<le> x \<Longrightarrow> roundD x = x"
  using roundD_big[of x] roundD_safe[of x] by (cases "x < 2 ^ 53") simp_all

lemma roundD_nonneg: "0 \<le> x \<Longrightarrow> 0 \<le> roundD x"
  using roundD_big[of x] roundD_safe[of x] by (cases "x < 2 ^ 53") simp_all

lemma roundD_neg: "x < 0 \<Longrightarrow> roundD x < 0"
proof -
  assume x: "x < 0"
  show ?thesis
  proof (cases "- x < 2 ^ 53")
    case True
    with x have "\<bar>x\<bar> < 2 ^ 53" by simp
    with x show ?thesis by (simp add: roundD_safe)
  next
    case False
    then have "2 ^ 53 \<le> roundD (- x)" by (intro roundD_big) simp
    then show ?thesis by (simp add: roundD_uminus)
  qed
qed


lemma scaled_quotient:
  fixes p q K :: int
  assumes p: "0 \<le> p" and q: "0 < q" and K: "0 < K"
  shows "\<exists>t s. (p * K) div q = (p div q) * K + t \<and> (p * K) mod q = s \<and>
           (p mod q) * K = t * q + s \<and> 0 \<le> t \<and> t < K \<and> 0 \<le> s \<and> s < q"
proof -
  let ?d = "p div q" and ?r = "p mod q"
  let ?t = "(?r * K) div q" and ?s = "(?r * K) mod q"
  have r: "0 \<le> ?r" "?r < q" using q by simp_all
  have "p * K = ?r * K + q * (?d * K)"
    by (metis distrib_right mult.assoc mult.commute mod_mult_div_eq add.commute)
  then have dv: "(p * K) div q = ?d * K + ?t" and md: "(p * K) mod q = ?s"
    using q by simp_all
  have e: "?r * K = ?t * q + ?s" by simp
  have t0: "0 \<le> ?t" using r K q by (simp add: pos_imp_zdiv_nonneg_iff)
  have s: "0 \<le> ?s" "?s < q" using q by simp_all
  have rK: "?r * K < q * K" using r K by simp
  have t1: "?t < K"
  proof (rule ccontr)
    assume "\<not> ?t < K"
    then have "K \<le> ?t" by simp
    then have "K * q \<le> ?t * q" using q by (intro mult_right_mono) simp_all
    with e s(1) have "K * q \<le> ?r * K" by linarith
    with rK show False by (simp add: mult.commute)
  qed
  from dv md e t0 t1 s show ?thesis by blast
qed

lemma round_scaled_pos:
  fixes p q K :: int
  assumes p: "0 \<le> p" and q: "0 < q" and K: "0 < K" and qK: "q < 2 * K"
  shows "roundHalfEven (p * K) q div K = p div q"
proof -
  let ?d = "p div q" and ?m = "roundHalfEven (p * K) q"
  from scaled_quotient[OF p q K] obtain t s where
    dv: "(p * K) div q = ?d * K + t" and md: "(p * K) mod q = s" and
    e: "(p mod q) * K = t * q + s" and t: "0 \<le> t" "t < K" and s: "0 \<le> s" "s < q" by blast
  have lo: "?d * K \<le> ?m" using roundHalfEven_bounds[of "p * K" q] dv t by linarith
  have hi: "?m < ?d * K + K"
  proof (cases "?m = (p * K) div q")
    case True
    with dv t show ?thesis by linarith
  next
    case False
    then have up: "q \<le> 2 * s" using roundHalfEven_up[of "p * K" q] md by simp
    have "t + 1 < K"
    proof (rule ccontr)
      assume "\<not> t + 1 < K"
      with t have tk: "t = K - 1" by linarith
      have "p mod q - q \<le> - 1" using q pos_mod_bound[of q p] by linarith
      then have "(p mod q - q) * K \<le> - 1 * K" using K by (intro mult_right_mono) simp_all
      then have "(p mod q) * K - q * K \<le> - K" by (simp add: left_diff_distrib)
      moreover have "s = (p mod q) * K - (K - 1) * q" using e tk by simp
      then have "s = (p mod q) * K - q * K + q" by (simp add: algebra_simps)
      ultimately have "s \<le> q - K" by linarith
      with up qK show False by linarith
    qed
    moreover have "?m \<le> (p * K) div q + 1" using roundHalfEven_bounds[of "p * K" q] by simp
    ultimately show ?thesis using dv by linarith
  qed
  have "?m = K * ?d + (?m - ?d * K)" by (simp add: mult.commute)
  moreover have "0 \<le> ?m - ?d * K" using lo by simp
  moreover have "?m - ?d * K < K" using hi by simp
  ultimately show ?thesis by (rule int_div_pos_eq)
qed

lemma round_scaled_neg:
  fixes p q K :: int
  assumes p: "0 \<le> p" and q: "0 < q" and K: "0 < K" and qK: "q < 2 * K"
  shows "(- roundHalfEven (p * K) q) div K = (- p) div q"
proof -
  let ?d = "p div q" and ?m = "roundHalfEven (p * K) q"
  from scaled_quotient[OF p q K] obtain t s where
    dv: "(p * K) div q = ?d * K + t" and md: "(p * K) mod q = s" and
    e: "(p mod q) * K = t * q + s" and t: "0 \<le> t" "t < K" and s: "0 \<le> s" "s < q" by blast
  show ?thesis
  proof (cases "p mod q = 0")
    case True
    then have "q dvd p" by (simp add: dvd_eq_mod_eq_0)
    then have "q dvd p * K" by (rule dvd_mult2)
    then have "(p * K) mod q = 0" by (simp add: dvd_eq_mod_eq_0)
    with q have "?m = (p * K) div q" by (intro roundHalfEven_exact)
    moreover from True e t s q have "t = 0"
      by (metis md \<open>(p * K) mod q = 0\<close> add.right_neutral mult_eq_0_iff mult_zero_left less_irrefl)
    ultimately have m: "?m = ?d * K" using dv by simp
    from True have "q dvd p" by (simp add: dvd_eq_mod_eq_0)
    then have "(- p) div q = - ?d" by (simp add: dvd_neg_div)
    moreover have "((- ?d) * K) div K = - ?d" using K by (intro nonzero_mult_div_cancel_right) simp
    then have "(- (?d * K)) div K = - ?d" by (simp only: mult_minus_left)
    ultimately show ?thesis using m by simp
  next
    case False
    then have r: "1 \<le> p mod q" using q pos_mod_sign[of q p] by linarith
    have nq: "(- p) div q = - ?d - 1"
      using False q by (simp add: zdiv_zminus1_eq_if)
    have lo: "?d * K < ?m"
    proof (cases "1 \<le> t")
      case True
      with dv roundHalfEven_bounds[of "p * K" q] show ?thesis by linarith
    next
      case False
      with t have t0: "t = 0" by simp
      with e have "s = (p mod q) * K" by simp
      moreover have "1 * K \<le> (p mod q) * K" using r K by (intro mult_right_mono) simp_all
      ultimately have "K \<le> s" by simp
      with qK have "q < 2 * ((p * K) mod q)" using md by linarith
      then have "?m = (p * K) div q + 1" by (rule roundHalfEven_up')
      with dv t0 show ?thesis by simp
    qed
    have hi: "?m \<le> ?d * K + K"
      using roundHalfEven_bounds[of "p * K" q] dv t by linarith
    have "- ?m = K * (- ?d - 1) + (?d * K + K - ?m)" by (simp add: algebra_simps)
    moreover have "0 \<le> ?d * K + K - ?m" using hi by simp
    moreover have "?d * K + K - ?m < K" using lo by simp
    ultimately have "(- ?m) div K = - ?d - 1" by (rule int_div_pos_eq)
    with nq show ?thesis by simp
  qed
qed


lemma floorQuotient_safe:
  assumes a: "\<bar>a\<bar> < 2 ^ 53" and n: "0 < n"
  shows "floorQuotient a n = a div int n"
proof (cases "a = 0")
  case True
  then show ?thesis by (simp add: floorQuotient_def)
next
  case False
  define p where "p = \<bar>a\<bar>"
  define q where "q = int n"
  define la where "la = bitLength p"
  define lq where "lq = bitLength q"
  define f where "f = (if q * 2 ^ la \<le> p * 2 ^ lq then int la - int lq else int la - int lq - 1)"
  define e where "e = f - 52"
  from False have p0: "0 < p" by (simp add: p_def)
  from n have q0: "0 < q" by (simp add: q_def)
  from a have p53: "p < 2 ^ 53" by (simp add: p_def)
  have fq: "floorQuotient a n =
      (if 0 \<le> e then sgn a * (roundHalfEven p (q * 2 ^ nat e) * 2 ^ nat e)
       else (sgn a * roundHalfEven (p * 2 ^ nat (- e)) q) div 2 ^ nat (- e))"
    using False n unfolding floorQuotient_def Let_def e_def f_def la_def lq_def p_def q_def
    by simp
  from bitLength_bounds[OF p0] have pb: "(2::int) ^ (la - 1) \<le> p" "p < 2 ^ la"
    unfolding la_def by simp_all
  from bitLength_bounds[OF q0] have qb: "(2::int) ^ (lq - 1) \<le> q" "q < 2 ^ lq"
    unfolding lq_def by simp_all
  from pb(1) p53 have "(2::int) ^ (la - 1) < 2 ^ 53" by linarith
  then have "la - 1 < 53" by (rule pow2_less_exp)
  then have la53: "la \<le> 53" by simp
  have la1: "1 \<le> la" using p0 unfolding la_def by (simp add: bitLength_pos)
  have lq1: "1 \<le> lq" using q0 unfolding lq_def by (simp add: bitLength_pos)
  have fle: "f \<le> int la - int lq" by (simp add: f_def)
  show ?thesis
  proof (cases "0 \<le> e")
    case True
    then have "52 \<le> f" by (simp add: e_def)
    with fle la53 lq1 have lq_eq: "lq = 1" and la_eq: "la = 53" and f_eq: "f = 52" by linarith+
    from qb(2) lq_eq q0 have q1: "q = 1" by simp
    have e0: "e = 0" using f_eq by (simp add: e_def)
    have "roundHalfEven p 1 = p" by (simp add: roundHalfEven_def)
    with fq e0 q1 have "floorQuotient a n = sgn a * p" by simp
    also have "\<dots> = a" by (simp add: p_def mult_sgn_abs)
    finally show ?thesis using q1 by (simp add: q_def)
  next
    case False
    then obtain k where k: "- e = int k" "0 < k"
      by (metis neg_0_less_iff_less not_le zero_less_imp_eq_int of_nat_0_less_iff)
    then have nk: "nat (- e) = k" by simp
    let ?K = "(2::int) ^ k"
    have lb: "q * 2 ^ 52 \<le> p * ?K"
    proof (cases "q * 2 ^ la \<le> p * 2 ^ lq")
      case True
      then have "f = int la - int lq" by (simp add: f_def)
      with k have kk: "k + la = 52 + lq" by (simp add: e_def)
      have "q * 2 ^ 52 * 2 ^ la = (q * 2 ^ la) * 2 ^ 52" by simp
      also have "\<dots> \<le> (p * 2 ^ lq) * 2 ^ 52" using True by (intro mult_right_mono) simp_all
      also have "\<dots> = p * 2 ^ (52 + lq)" by (simp add: power_add)
      also have "\<dots> = p * 2 ^ (k + la)" by (simp only: kk)
      also have "\<dots> = p * ?K * 2 ^ la" by (simp add: power_add)
      finally have "q * 2 ^ 52 * 2 ^ la \<le> p * ?K * 2 ^ la" .
      then show ?thesis by (simp only: mult_le_cancel_right zero_less_power zero_less_numeral)
    next
      case False
      then have "f = int la - int lq - 1" by (simp add: f_def)
      with k la1 have kk: "k + (la - 1) = 52 + lq" by (simp add: e_def)
      have "q * 2 ^ 52 \<le> 2 ^ lq * 2 ^ 52" using qb(2) by (intro mult_right_mono) simp_all
      also have "\<dots> = 2 ^ (52 + lq)" by (simp add: power_add)
      also have "\<dots> = 2 ^ (k + (la - 1))" by (simp only: kk)
      also have "\<dots> = 2 ^ (la - 1) * ?K" by (simp add: power_add)
      also have "\<dots> \<le> p * ?K" using pb(1) by (intro mult_right_mono) simp_all
      finally show ?thesis .
    qed
    have "p * ?K < 2 ^ 53 * ?K" using p53 by (intro mult_strict_right_mono) simp_all
    with lb have "q * 2 ^ 52 < 2 ^ 53 * ?K" by linarith
    then have "q * 2 ^ 52 < (2 * ?K) * 2 ^ 52" by simp
    then have qK: "q < 2 * ?K" by (simp only: mult_less_cancel_right zero_less_power zero_less_numeral) simp
    have K0: "0 < ?K" by simp
    have p0': "0 \<le> p" using p0 by simp
    from fq False nk have r: "floorQuotient a n = (sgn a * roundHalfEven (p * ?K) q) div ?K" by simp
    show ?thesis
    proof (cases "0 < a")
      case True
      then have "sgn a = 1" "a = p" by (simp_all add: p_def)
      with r round_scaled_pos[OF p0' q0 K0 qK] show ?thesis by (simp add: q_def)
    next
      case False
      with \<open>a \<noteq> 0\<close> have "sgn a = - 1" "a = - p" by (simp_all add: p_def)
      with r round_scaled_neg[OF p0' q0 K0 qK] show ?thesis by (simp add: q_def)
    qed
  qed
qed

lemma addN_nonneg: "0 \<le> a \<Longrightarrow> 0 \<le> b \<Longrightarrow> 0 \<le> addN a b"
  by (simp add: addN_def roundD_nonneg)

lemma foldl_addN_small:
  "0 \<le> acc \<Longrightarrow> \<forall>x\<in>set xs. 0 \<le> x \<Longrightarrow> foldl addN acc xs < 2 ^ 53 \<Longrightarrow>
     foldl addN acc xs = acc + sum_list xs"
proof (induction xs arbitrary: acc)
  case Nil
  then show ?case by simp
next
  case (Cons x xs)
  from Cons.prems have x: "0 \<le> x" and xs: "\<forall>x\<in>set xs. 0 \<le> x" by simp_all
  have n: "0 \<le> addN acc x" using Cons.prems(1) x by (rule addN_nonneg)
  from Cons.prems(3) have lt: "foldl addN (addN acc x) xs < 2 ^ 53" by simp
  from Cons.IH[OF n xs lt] have e: "foldl addN (addN acc x) xs = addN acc x + sum_list xs" .
  have "0 \<le> sum_list xs" using xs by (simp add: sum_list_nonneg)
  with e lt have "roundD (acc + x) < 2 ^ 53" by (simp add: addN_def)
  moreover have "0 \<le> acc + x" using Cons.prems(1) x by simp
  ultimately have "addN acc x = acc + x" unfolding addN_def by (rule roundD_small)
  with e show ?case by simp
qed

lemma foldl_addN_exact:
  "0 \<le> acc \<Longrightarrow> \<forall>x\<in>set xs. 0 \<le> x \<Longrightarrow> acc + sum_list xs < 2 ^ 53 \<Longrightarrow>
     foldl addN acc xs = acc + sum_list xs"
proof (induction xs arbitrary: acc)
  case Nil
  then show ?case by simp
next
  case (Cons x xs)
  from Cons.prems have x: "0 \<le> x" and xs: "\<forall>x\<in>set xs. 0 \<le> x" by simp_all
  have s0: "0 \<le> sum_list xs" using xs by (simp add: sum_list_nonneg)
  with Cons.prems have "\<bar>acc + x\<bar> < 2 ^ 53" using x by simp
  then have a: "addN acc x = acc + x" unfolding addN_def by (rule roundD_safe)
  have "foldl addN (acc + x) xs = (acc + x) + sum_list xs"
    using Cons.prems x xs by (intro Cons.IH) simp_all
  with a show ?case by simp
qed

lemma firstNegative_None: "(firstNegative n i ds = None) = (\<forall>d\<in>set ds. 0 \<le> amount d)"
  by (induction ds arbitrary: i) auto

lemma sum_D_Inr:
  "sum_D n ds = Inr t \<Longrightarrow> t = foldl addN 0 (map amount ds) \<and> (\<forall>d\<in>set ds. 0 \<le> amount d)"
proof -
  assume a: "sum_D n ds = Inr t"
  then have f: "firstNegative n 0 ds = None" and t: "t = foldl addN 0 (map amount ds)"
    unfolding sum_D_def by (auto split: option.splits)
  from f have "\<forall>d\<in>set ds. 0 \<le> amount d" by (simp only: firstNegative_None)
  with t show ?thesis by simp
qed

lemma sum_D_nonneg:
  "\<forall>d\<in>set ds. 0 \<le> amount d \<Longrightarrow> sum_D n ds = Inr (foldl addN 0 (map amount ds))"
proof -
  assume "\<forall>d\<in>set ds. 0 \<le> amount d"
  then have "firstNegative n 0 ds = None" by (simp only: firstNegative_None)
  then show ?thesis by (simp add: sum_D_def)
qed

lemma sum_D_small:
  assumes "sum_D n ds = Inr t" and "t < 2 ^ 53"
  shows "t = sum_list (map amount ds)"
proof -
  from sum_D_Inr[OF assms(1)] have t: "t = foldl addN 0 (map amount ds)" and
    nn: "\<forall>d\<in>set ds. 0 \<le> amount d" by simp_all
  from nn have "\<forall>x\<in>set (map amount ds). 0 \<le> x" by simp
  from foldl_addN_small[of 0 "map amount ds", OF _ this] assms(2) t show ?thesis by simp
qed

lemma sum_D_exact:
  assumes "\<forall>d\<in>set ds. 0 \<le> amount d" and "sum_list (map amount ds) < 2 ^ 53"
  shows "sum_D n ds = Inr (sum_list (map amount ds))"
proof -
  from assms(1) have "\<forall>x\<in>set (map amount ds). 0 \<le> x" by simp
  from foldl_addN_exact[of 0 "map amount ds", OF _ this] assms(2) have "foldl addN 0 (map amount ds) = sum_list (map amount ds)"
    by simp
  with sum_D_nonneg[OF assms(1)] show ?thesis by simp
qed

lemma checkSupplied_Inr:
  "checkSupplied n supp ds = Inr final \<Longrightarrow>
     final = ds \<and> sum_D n ds = Inr supp \<and> (\<forall>d\<in>set ds. 0 \<le> amount d)"
  by (auto simp: checkSupplied_def split: sum.splits if_splits dest: sum_D_Inr)

lemma checkSupplied_same: "checkSupplied n supp ds = Inr final \<Longrightarrow> final = ds"
  by (simp add: checkSupplied_def split: sum.splits if_splits)

lemma processMosaic_stages:
  assumes "processMosaic s p ns addr len m i g = Inr (m', acc, g')"
  shows "\<exists>corrected.
     generateAddresses s (GenNemesisAccount i) (accountsOrOne (accounts_MP m)) g = Inr (accounts_MA acc, g') \<and>
     correctionStep p ns len m i (accounts_MA acc) = Inr corrected \<and>
     checkSupplied (name_MP m) (supply_MP m) corrected = Inr corrected \<and>
     m' = m\<lparr>currencyDistributions := Some corrected\<rparr>"
proof -
  from assms obtain accounts corrected final where
    ga: "generateAddresses s (GenNemesisAccount i) (accountsOrOne (accounts_MP m)) g = Inr (accounts, g')" and
    cs: "correctionStep p ns len m i accounts = Inr corrected" and
    ck: "checkSupplied (name_MP m) (supply_MP m) corrected = Inr final" and
    m': "m' = m\<lparr>currencyDistributions := Some final\<rparr>" and
    acc: "accounts_MA acc = accounts"
    unfolding processMosaic_def by (auto split: sum.splits prod.splits)
  from checkSupplied_same[OF ck] have "final = corrected" .
  with ga cs ck m' acc show ?thesis by simp
qed

lemma checkSupplied_exact:
  assumes "checkSupplied n supp ds = Inr final" and "supp \<le> MAX_SAFE_INTEGER"
  shows "final = ds \<and> sum_list (map amount ds) = supp \<and> (\<forall>d\<in>set ds. 0 \<le> amount d)"
proof -
  from checkSupplied_Inr[OF assms(1)] have f: "final = ds" and s: "sum_D n ds = Inr supp" and
    nn: "\<forall>d\<in>set ds. 0 \<le> amount d" by simp_all
  from assms(2) have "supp < 2 ^ 53" by (simp add: MAX_SAFE_INTEGER_def)
  from sum_D_small[OF s this] f nn show ?thesis by simp
qed

lemma checkSupplied_mismatch:
  "sum_D n ds = Inr t \<Longrightarrow> t \<noteq> supp \<Longrightarrow> checkSupplied n supp ds = Inl (InvalidTotalSupplied supp t)"
  by (simp add: checkSupplied_def)

lemma processMosaic_Inr:
  assumes "processMosaic s p ns addr len m i g = Inr (m', acc, g')"
  shows "\<exists>ds. m' = m\<lparr>currencyDistributions := Some ds\<rparr> \<and>
              sum_D (name_MP m) ds = Inr (supply_MP m) \<and> (\<forall>d\<in>set ds. 0 \<le> amount d) \<and>
              (supply_MP m \<le> MAX_SAFE_INTEGER \<longrightarrow> sum_list (map amount ds) = supply_MP m)"
proof -
  from processMosaic_stages[OF assms] obtain corrected where
    ck: "checkSupplied (name_MP m) (supply_MP m) corrected = Inr corrected" and
    m': "m' = m\<lparr>currencyDistributions := Some corrected\<rparr>" by blast
  from checkSupplied_Inr[OF ck] have s: "sum_D (name_MP m) corrected = Inr (supply_MP m)" and
    nn: "\<forall>d\<in>set corrected. 0 \<le> amount d" by simp_all
  have "supply_MP m \<le> MAX_SAFE_INTEGER \<longrightarrow> sum_list (map amount corrected) = supply_MP m"
    using checkSupplied_exact[OF ck] by simp
  with m' s nn show ?thesis by blast
qed

lemma processMosaicsFrom_Inr:
  assumes "processMosaicsFrom s p ns addr len i ms g = Inr (ms', accs, g')"
  shows "length ms' = length ms \<and>
         (\<forall>k<length ms. \<exists>ds. ms' ! k = (ms ! k)\<lparr>currencyDistributions := Some ds\<rparr> \<and>
              sum_D (name_MP (ms ! k)) ds = Inr (supply_MP (ms ! k)) \<and> (\<forall>d\<in>set ds. 0 \<le> amount d) \<and>
              (supply_MP (ms ! k) \<le> MAX_SAFE_INTEGER \<longrightarrow>
                 sum_list (map amount ds) = supply_MP (ms ! k)))"
  using assms
proof (induction ms arbitrary: i g ms' accs g')
  case Nil
  then show ?case by simp
next
  case (Cons m ms)
  from Cons.prems(1) obtain m1 a1 g1 ms1 accs1 where
    pm: "processMosaic s p ns addr len m i g = Inr (m1, a1, g1)" and
    rest: "processMosaicsFrom s p ns addr len (Suc i) ms g1 = Inr (ms1, accs1, g')" and
    eq: "ms' = m1 # ms1"
    by (auto split: sum.splits prod.splits)
  from Cons.IH[OF rest] have ih: "length ms1 = length ms"
    "\<forall>k<length ms. \<exists>ds. ms1 ! k = (ms ! k)\<lparr>currencyDistributions := Some ds\<rparr> \<and>
              sum_D (name_MP (ms ! k)) ds = Inr (supply_MP (ms ! k)) \<and> (\<forall>d\<in>set ds. 0 \<le> amount d) \<and>
              (supply_MP (ms ! k) \<le> MAX_SAFE_INTEGER \<longrightarrow>
                 sum_list (map amount ds) = supply_MP (ms ! k))"
    by simp_all
  from processMosaic_Inr[OF pm] obtain ds where
    hd: "m1 = m\<lparr>currencyDistributions := Some ds\<rparr> \<and>
         sum_D (name_MP m) ds = Inr (supply_MP m) \<and> (\<forall>d\<in>set ds. 0 \<le> amount d) \<and>
         (supply_MP m \<le> MAX_SAFE_INTEGER \<longrightarrow> sum_list (map amount ds) = supply_MP m)" by blast
  show ?case
  proof (intro conjI allI impI)
    show "length ms' = length (m # ms)" using eq ih(1) by simp
  next
    fix k assume k: "k < length (m # ms)"
    show "\<exists>ds. ms' ! k = ((m # ms) ! k)\<lparr>currencyDistributions := Some ds\<rparr> \<and>
              sum_D (name_MP ((m # ms) ! k)) ds = Inr (supply_MP ((m # ms) ! k)) \<and>
              (\<forall>d\<in>set ds. 0 \<le> amount d) \<and>
              (supply_MP ((m # ms) ! k) \<le> MAX_SAFE_INTEGER \<longrightarrow>
                 sum_list (map amount ds) = supply_MP ((m # ms) ! k))"
    proof (cases k)
      case 0
      with eq hd show ?thesis by (intro exI[of _ ds]) simp
    next
      case (Suc j)
      with k have "j < length ms" by simp
      with ih(2) obtain ds' where
        "ms1 ! j = (ms ! j)\<lparr>currencyDistributions := Some ds'\<rparr> \<and>
         sum_D (name_MP (ms ! j)) ds' = Inr (supply_MP (ms ! j)) \<and> (\<forall>d\<in>set ds'. 0 \<le> amount d) \<and>
         (supply_MP (ms ! j) \<le> MAX_SAFE_INTEGER \<longrightarrow> sum_list (map amount ds') = supply_MP (ms ! j))"
        by blast
      with Suc eq show ?thesis by (intro exI[of _ ds']) simp
    qed
  qed
qed


text \<open>
  What a mosaic's list is when its processing returns and its supply is a safe integer:
  the arithmetic is exact, the first generated entry has a positive amount and takes the
  remainder, the other generated entries and the provided ones follow.
\<close>

lemma sum_list_filter_pos:
  "\<forall>d\<in>set ds. 0 \<le> amount d \<Longrightarrow>
     sum_list (map amount (filter (\<lambda>d. 0 < amount d) ds)) = sum_list (map amount ds)"
  by (induction ds) auto

lemma sum_list_all_zero: "\<forall>d\<in>set ds. amount d = (0::int) \<Longrightarrow> sum_list (map amount ds) = 0"
  by (induction ds) auto

lemma sum_list_amount_nonneg: "\<forall>d\<in>set ds. 0 \<le> amount d \<Longrightarrow> 0 \<le> sum_list (map amount ds)"
  by (induction ds) auto

lemma filter_pos_empty: "\<forall>d\<in>set ds. amount d \<le> 0 \<Longrightarrow> filter (\<lambda>d. 0 < amount d) ds = []"
  by (induction ds) auto

lemma generatedAccounts_le_hd:
  "generatedAccounts accounts nodeMains cap per = g0 # gs \<Longrightarrow> \<forall>d\<in>set gs. amount d \<le> amount g0"
  by (cases accounts) (auto simp: generatedAccounts_def Cons_eq_map_conv)

lemma generatedAccounts_Cons:
  "accounts \<noteq> [] \<Longrightarrow>
     \<exists>gs. generatedAccounts accounts nodeMains cap per =
       \<lparr>address_D = address (hd accounts), amount = per\<rparr> # gs"
  by (cases accounts) (simp_all add: generatedAccounts_def)

lemma correctionStep_Inr:
  assumes "correctionStep p ns len m i accounts = Inr corrected"
  shows "\<exists>providedSupply generatedSupply d ds.
     sum_D (name_MP m) (providedDistributions p ns m i) = Inr providedSupply \<and>
     sum_D (name_MP m) (drop 1 (generatedAccounts accounts (nodeMainAccounts p ns i)
        (maxHarvesterBalanceOf p len i)
        (amountPerAccount (subN (supply_MP m) providedSupply)
           (length accounts + length (nodeMainAccounts p ns i))))) = Inr generatedSupply \<and>
     filter (\<lambda>d. 0 < amount d)
       (generatedAccounts accounts (nodeMainAccounts p ns i) (maxHarvesterBalanceOf p len i)
          (amountPerAccount (subN (supply_MP m) providedSupply)
             (length accounts + length (nodeMainAccounts p ns i))) @
        providedDistributions p ns m i) = d # ds \<and>
     corrected = d\<lparr>amount := subN (subN (supply_MP m) providedSupply) generatedSupply\<rparr> # ds"
  using assms unfolding correctionStep_def correctedDistributions_def Let_def
  by (auto split: sum.splits list.splits)

lemma distribution_on_success:
  assumes ok: "processMosaic s p ns addr len m i g = Inr (m', acc, g')"
      and safe: "supply_MP m \<le> MAX_SAFE_INTEGER"
      and ne: "accounts_MA acc \<noteq> [] \<or> nodeMainAccounts p ns i \<noteq> []"
  shows "\<exists>g0 gs.
     (\<forall>d\<in>set (providedDistributions p ns m i). 0 \<le> amount d) \<and>
     sum_list (map amount (providedDistributions p ns m i)) \<le> supply_MP m \<and>
     generatedAccounts (accounts_MA acc) (nodeMainAccounts p ns i) (maxHarvesterBalanceOf p len i)
        ((supply_MP m - sum_list (map amount (providedDistributions p ns m i))) div
           int (length (accounts_MA acc) + length (nodeMainAccounts p ns i))) = g0 # gs \<and>
     0 < amount g0 \<and> (\<forall>d\<in>set gs. 0 \<le> amount d) \<and>
     currencyDistributions m' =
       Some (g0\<lparr>amount := supply_MP m - sum_list (map amount (providedDistributions p ns m i)) -
                              sum_list (map amount gs)\<rparr> #
             filter (\<lambda>d. 0 < amount d) gs @
             filter (\<lambda>d. 0 < amount d) (providedDistributions p ns m i))"
proof -
  define accounts where "accounts = accounts_MA acc"
  have acc: "accounts_MA acc = accounts" by (simp add: accounts_def)
  from processMosaic_stages[OF ok] obtain corrected where
    cs: "correctionStep p ns len m i accounts = Inr corrected" and
    ck: "checkSupplied (name_MP m) (supply_MP m) corrected = Inr corrected" and
    m': "m' = m\<lparr>currencyDistributions := Some corrected\<rparr>"
    unfolding acc by blast
  let ?prov = "providedDistributions p ns m i"
  let ?nm = "nodeMainAccounts p ns i"
  let ?cap = "maxHarvesterBalanceOf p len i"
  let ?count = "length accounts + length ?nm"
  let ?S = "supply_MP m"
  from correctionStep_Inr[OF cs] obtain P G d ds where
    ps: "sum_D (name_MP m) ?prov = Inr P" and
    gs: "sum_D (name_MP m) (drop 1 (generatedAccounts accounts ?nm ?cap
           (amountPerAccount (subN ?S P) ?count))) = Inr G" and
    fl: "filter (\<lambda>d. 0 < amount d)
           (generatedAccounts accounts ?nm ?cap (amountPerAccount (subN ?S P) ?count) @ ?prov) = d # ds" and
    co: "corrected = d\<lparr>amount := subN (subN ?S P) G\<rparr> # ds"
    by blast
  let ?R = "subN ?S P"
  let ?per = "amountPerAccount ?R ?count"
  let ?gen = "generatedAccounts accounts ?nm ?cap ?per"
  from ne acc have cnt: "0 < ?count" by auto
  from ne acc have "?gen \<noteq> []" by (auto simp: generatedAccounts_def)
  then obtain g0 gl where gc: "?gen = g0 # gl" by (cases ?gen) auto
  from sum_D_Inr[OF ps] have pnn: "\<forall>d\<in>set ?prov. 0 \<le> amount d" by simp
  from sum_D_Inr[OF gs] have gnn: "\<forall>d\<in>set gl. 0 \<le> amount d" unfolding gc by simp
  from gs have gs': "sum_D (name_MP m) gl = Inr G" unfolding gc by simp
  from checkSupplied_exact[OF ck safe] have tot: "sum_list (map amount corrected) = ?S" and
    cnn: "\<forall>d\<in>set corrected. 0 \<le> amount d" by simp_all
  from safe have S53: "?S < 2 ^ 53" by (simp add: MAX_SAFE_INTEGER_def)
  from tot sum_list_amount_nonneg[OF cnn] have S0: "0 \<le> ?S" by simp
  from co cnn have c0: "0 \<le> subN ?R G" by simp
  from co cnn have dsnn: "\<forall>d\<in>set ds. 0 \<le> amount d" by simp
  from co tot have tot': "subN ?R G + sum_list (map amount ds) = ?S" by simp
  have fpp: "sum_list (map amount (filter (\<lambda>d. 0 < amount d) ?prov)) = sum_list (map amount ?prov)"
    using pnn by (rule sum_list_filter_pos)
  have fpg: "sum_list (map amount (filter (\<lambda>d. 0 < amount d) gl)) = sum_list (map amount gl)"
    using gnn by (rule sum_list_filter_pos)
  have P0: "0 \<le> sum_list (map amount ?prov)" using pnn by (rule sum_list_amount_nonneg)
  have G0: "0 \<le> sum_list (map amount gl)" using gnn by (rule sum_list_amount_nonneg)
  have pos: "0 < amount g0"
  proof (rule ccontr)
    assume "\<not> 0 < amount g0"
    then have le: "amount g0 \<le> 0" by simp
    with generatedAccounts_le_hd[OF gc] have all: "\<forall>d\<in>set ?gen. amount d \<le> 0"
      unfolding gc by auto
    then have fe: "filter (\<lambda>d. 0 < amount d) ?gen = []" by (rule filter_pos_empty)
    from all gnn have "\<forall>d\<in>set gl. amount d = 0" unfolding gc by force
    then have z: "sum_list (map amount gl) = 0" by (rule sum_list_all_zero)
    from sum_D_exact[OF gnn, of "name_MP m"] z gs' have G: "G = 0" by simp
    from fl fe have fp: "filter (\<lambda>d. 0 < amount d) ?prov = d # ds" by simp
    then have "d \<in> set (filter (\<lambda>d. 0 < amount d) ?prov)" by simp
    then have dpos: "0 < amount d" by simp
    from fpp fp have pe: "amount d + sum_list (map amount ds) = sum_list (map amount ?prov)" by simp
    have c: "subN ?R G = roundD ?R" by (simp add: subN_def G)
    show False
    proof (cases "P < 2 ^ 53")
      case True
      from sum_D_small[OF ps True] have P: "P = sum_list (map amount ?prov)" .
      with P0 True S0 S53 have "\<bar>?S - P\<bar> < 2 ^ 53" by simp
      then have R: "?R = ?S - P" unfolding subN_def by (rule roundD_safe)
      from P0 P True S0 S53 have "\<bar>?S - P\<bar> < 2 ^ 53" by simp
      then have "roundD (?S - P) = ?S - P" by (rule roundD_safe)
      with c R have "subN ?R G = ?S - P" by simp
      with tot' P pe have "amount d = 0" by simp
      with dpos show False by simp
    next
      case False
      with S53 have "?S - P < 0" by simp
      then have "?R < 0" unfolding subN_def by (rule roundD_neg)
      then have "roundD ?R < 0" by (rule roundD_neg)
      with c c0 show False by simp
    qed
  qed
  have "filter (\<lambda>d. 0 < amount d) (?gen @ ?prov) =
      g0 # filter (\<lambda>d. 0 < amount d) gl @ filter (\<lambda>d. 0 < amount d) ?prov"
    unfolding gc using pos by simp
  with fl have dd: "d = g0" "ds = filter (\<lambda>d. 0 < amount d) gl @ filter (\<lambda>d. 0 < amount d) ?prov"
    by simp_all
  from tot' dd fpp fpg have sum3: "subN ?R G + sum_list (map amount gl) + sum_list (map amount ?prov) = ?S"
    by simp
  from sum3 c0 G0 S53 have "sum_list (map amount ?prov) < 2 ^ 53" by linarith
  from sum_D_exact[OF pnn this, of "name_MP m"] ps have P: "P = sum_list (map amount ?prov)" by simp
  from sum3 c0 P0 S53 have "sum_list (map amount gl) < 2 ^ 53" by linarith
  from sum_D_exact[OF gnn this, of "name_MP m"] gs' have G: "G = sum_list (map amount gl)" by simp
  from sum3 c0 G0 have PS: "sum_list (map amount ?prov) \<le> ?S" by linarith
  with P P0 S53 have "\<bar>?S - P\<bar> < 2 ^ 53" by simp
  then have R: "?R = ?S - P" unfolding subN_def by (rule roundD_safe)
  from sum3 c0 P0 PS G0 have "sum_list (map amount gl) \<le> ?S" by linarith
  with R P P0 PS G G0 S53 have "\<bar>?R - G\<bar> < 2 ^ 53" by simp
  then have c: "subN ?R G = ?R - G" unfolding subN_def by (rule roundD_safe)
  from R P P0 PS S53 have "\<bar>?R\<bar> < 2 ^ 53" by simp
  from floorQuotient_safe[OF this cnt] have "?per = ?R div int ?count"
    unfolding amountPerAccount_def .
  with R P have per: "?per = (?S - sum_list (map amount ?prov)) div int ?count" by simp
  from co dd c R P G m' have cd: "currencyDistributions m' =
       Some (g0\<lparr>amount := ?S - sum_list (map amount ?prov) - sum_list (map amount gl)\<rparr> #
             filter (\<lambda>d. 0 < amount d) gl @ filter (\<lambda>d. 0 < amount d) ?prov)" by simp
  from gc per have ge: "generatedAccounts accounts ?nm ?cap
        ((?S - sum_list (map amount ?prov)) div int (length accounts + length ?nm)) = g0 # gl" by simp
  show ?thesis
    unfolding acc using pnn PS ge pos gnn cd
    by (intro exI[of _ g0] exI[of _ gl] conjI)
qed


lemma keysOnly_simps [simp]: "keysOnly []" "keysOnly [GenKey k]"
  "keysOnly (xs @ ys) = (keysOnly xs \<and> keysOnly ys)"
  by (auto simp: keysOnly_def)

lemma generateAccount_trace:
  "generateAccount s mode k old priv pub g = Inr (a, g') \<Longrightarrow> g' = g \<or> g' = g @ [GenKey k]"
  by (auto simp: generateAccount_def generateNewAccount_def split: option.splits if_splits)

lemma generateAccount_keysOnly:
  "generateAccount s mode k old priv pub g = Inr (a, g') \<Longrightarrow> \<exists>es. g' = g @ es \<and> keysOnly es"
  by (drule generateAccount_trace) auto

lemma generateOptional_keysOnly:
  "generateOptional w s mode k old priv pub g = Inr (a, g') \<Longrightarrow> \<exists>es. g' = g @ es \<and> keysOnly es"
  by (auto simp: generateOptional_def split: if_splits sum.splits dest: generateAccount_keysOnly)


lemma generateNodeAccount_keysOnly:
  assumes "generateNodeAccount s e old p i n g = Inr (a, g')"
  shows "\<exists>es. g' = g @ es \<and> keysOnly es"
proof -
  from assms have "\<exists>mode m1 g1 t1 g2 r1 g3 v1 g4 ag1.
    generateAccount s mode Main (map_option main old) (mainPrivateKey n) (mainPublicKey n) g = Inr (m1, g1) \<and>
    generateAccount s mode Transport (map_option transport old) (transportPrivateKey n) (transportPublicKey n) g1 = Inr (t1, g2) \<and>
    generateOptional ((nodeUseRemoteAccount_NP n \<or> nodeUseRemoteAccount p) \<and> (harvesting n \<or> voting n))
           s mode Remote (Option.bind old remote) (remotePrivateKey n) (remotePublicKey n) g2 = Inr (r1, g3) \<and>
    generateOptional (harvesting n) s mode VRF (Option.bind old vrf) (vrfPrivateKey n) (vrfPublicKey n) g3 = Inr (v1, g4) \<and>
    generateOptional (truthy (rewardProgram n)) s mode Agent (Option.bind old agent) (agentPrivateKey n) (agentPublicKey n) g4 = Inr (ag1, g')"
    unfolding generateNodeAccount_def
    apply (simp only: case_sum_Inr_iff split_paired_Ex prod.case sum.inject prod.inject)
    apply (elim exE conjE)
    apply (intro exI conjI)
    apply assumption+
    apply (simp only:)
    done
  then obtain mode m1 g1 t1 g2 r1 g3 v1 g4 ag1 where
    a1: "generateAccount s mode Main (map_option main old) (mainPrivateKey n) (mainPublicKey n) g = Inr (m1, g1)" and
    a2: "generateAccount s mode Transport (map_option transport old) (transportPrivateKey n) (transportPublicKey n) g1 = Inr (t1, g2)" and
    a3: "generateOptional ((nodeUseRemoteAccount_NP n \<or> nodeUseRemoteAccount p) \<and> (harvesting n \<or> voting n))
           s mode Remote (Option.bind old remote) (remotePrivateKey n) (remotePublicKey n) g2 = Inr (r1, g3)" and
    a4: "generateOptional (harvesting n) s mode VRF (Option.bind old vrf) (vrfPrivateKey n) (vrfPublicKey n) g3 = Inr (v1, g4)" and
    a5: "generateOptional (truthy (rewardProgram n)) s mode Agent (Option.bind old agent) (agentPrivateKey n) (agentPublicKey n) g4 = Inr (ag1, g')"
    by blast
  from generateAccount_keysOnly[OF a1] generateAccount_keysOnly[OF a2]
    generateOptional_keysOnly[OF a3] generateOptional_keysOnly[OF a4] generateOptional_keysOnly[OF a5]
  obtain e1 e2 e3 e4 e5 where "g1 = g @ e1" "g2 = g1 @ e2" "g3 = g2 @ e3" "g4 = g3 @ e4" "g' = g4 @ e5"
    "keysOnly e1" "keysOnly e2" "keysOnly e3" "keysOnly e4" "keysOnly e5" by blast
  then have "g' = g @ (e1 @ e2 @ e3 @ e4 @ e5) \<and> keysOnly (e1 @ e2 @ e3 @ e4 @ e5)" by simp
  then show ?thesis by blast
qed
lemma generateNodeAccountsFrom_Inr:
  "generateNodeAccountsFrom s e old p i ns g = Inr (as, g') \<Longrightarrow>
     length as = length ns \<and> (\<exists>es. g' = g @ es \<and> keysOnly es)"
proof (induction ns arbitrary: i g as g')
  case Nil
  then show ?case by simp
next
  case (Cons n ns)
  from Cons.prems obtain a g1 as1 where
    h: "generateNodeAccount s e (oldNodeAt old i) p i n g = Inr (a, g1)" and
    r: "generateNodeAccountsFrom s e old p (Suc i) ns g1 = Inr (as1, g')" and eq: "as = a # as1"
    by (auto split: sum.splits prod.splits)
  from generateNodeAccount_keysOnly[OF h] obtain e1 where e1: "g1 = g @ e1" "keysOnly e1" by blast
  from Cons.IH[OF r] obtain e2 where e2: "length as1 = length ns" "g' = g1 @ e2" "keysOnly e2" by blast
  from e1 e2 have "g' = g @ (e1 @ e2) \<and> keysOnly (e1 @ e2)" by simp
  with eq e2 show ?case by auto
qed

lemma length_generateNodeAccounts:
  "generateNodeAccounts s e old p ns g = Inr (as, g') \<Longrightarrow> length as = length ns"
  unfolding generateNodeAccounts_def by (drule generateNodeAccountsFrom_Inr) simp

lemma initialAddresses_Inr:
  assumes "initialAddresses s e old p g = Inr (a, g')"
  shows "sinkAddress_A a = orElse (sinkAddress p) (Option.bind old sinkAddress_A) \<and>
         mosaics_A a = None \<and> nemesisSigner a = None \<and>
         (\<exists>es. g' = g @ es \<and> keysOnly es)"
proof -
  obtain nt where nt: "networkType p = Some nt" "nt \<noteq> 0"
    using assms unfolding initialAddresses_def by (cases "networkType p") (auto split: if_splits)
  show ?thesis
  proof (cases "nodes p")
    case None
    with assms nt show ?thesis unfolding initialAddresses_def by (auto simp: Let_def)
  next
    case (Some ns)
    with assms nt obtain as where
      h: "generateNodeAccountsFrom s e old p 0 ns g = Inr (as, g')"
      unfolding initialAddresses_def generateNodeAccounts_def
      by (cases "generateNodeAccountsFrom s e old p 0 ns g") (auto simp: Let_def)
    from generateNodeAccountsFrom_Inr[OF h] have "\<exists>es. g' = g @ es \<and> keysOnly es" by simp
    moreover from assms nt Some h have "sinkAddress_A a = orElse (sinkAddress p) (Option.bind old sinkAddress_A) \<and>
         mosaics_A a = None \<and> nemesisSigner a = None"
      unfolding initialAddresses_def generateNodeAccounts_def by (auto simp: Let_def)
    ultimately show ?thesis by simp
  qed
qed


lemma case_sum_Some_Inr_iff:
  "((case m of Inl err \<Rightarrow> Some (Inl err) | Inr x \<Rightarrow> f x) = Some (Inr y)) =
     (\<exists>x. m = Inr x \<and> f x = Some (Inr y))"
  by (cases m) auto

lemma case_option_sum_Inr_iff:
  "((case m of None \<Rightarrow> None | Some (Inl err) \<Rightarrow> Some (Inl err) | Some (Inr x) \<Rightarrow> f x) = Some (Inr y)) =
     (\<exists>x. m = Some (Inr x) \<and> f x = Some (Inr y))"
  by (cases m) (auto split: sum.splits)

lemma case_prod_eq_iff: "(case_prod f t = r) = (\<exists>a b. t = (a, b) \<and> f a b = r)"
  by (cases t) simp

lemma preNemesis_Inr:
  assumes "preNemesis s e old p g = Some (Inr (sc, addr, a, p', g'))"
  shows "\<exists>a1 g1 a2 p2 g2 mode p4.
     initialAddresses s e old p g = Inr (a1, g1) \<and>
     fillNamespaceRentalFeeSink s (fillMosaicRentalFeeSink s (fillHarvestNetworkFeeSink s (a1, p, g1))) = (a2, p2, g2) \<and>
     getPrivateKeySecurityMode e (privateKeySecurityMode (networkFields e a2 p2)) = Inr mode \<and>
     nemesisSignerStage s e mode old (a2, networkFields e a2 p2, g2) = Some (Inr (a, p4, g')) \<and>
     mosaicIdStage s p4 = Inr (addr, p') \<and>
     sc = shouldCreateNemesis e (networkFields e a2 p2)"
  using assms unfolding preNemesis_def
  apply (simp only: case_sum_Some_Inr_iff case_option_sum_Inr_iff case_prod_eq_iff Let_def
      option.inject sum.inject prod.inject)
  apply (elim exE conjE)
  apply (intro exI conjI)
  apply (simp only:)+
  done

lemma getDefaultSyncAddress_cases:
  assumes "getDefaultSyncAddress s a g = (x, a', g')"
  shows "(truthy (sinkAddress_A a) \<and> sinkAddress_A a = Some x \<and> a' = a \<and> g' = g) \<or>
         (\<not> truthy (sinkAddress_A a) \<and> x = accountAddress s (Account (newPrivateKey s (length g))) \<and>
          a' = a\<lparr>sinkAddress_A := Some x\<rparr> \<and> g' = g @ [GenSink])"
proof (cases "truthy (sinkAddress_A a)")
  case True
  then obtain y where "sinkAddress_A a = Some y" "y \<noteq> []" by (cases "sinkAddress_A a") auto
  with assms True show ?thesis by (simp add: getDefaultSyncAddress_def orDefault_def)
next
  case False
  with assms show ?thesis by (auto simp: getDefaultSyncAddress_def generateNewAccount_def)
qed

lemma fillHarvestNetworkFeeSink_frame:
  assumes "fillHarvestNetworkFeeSink s (a, p, g) = (a', p', g')"
  shows "\<exists>x sk es. p' = p\<lparr>harvestNetworkFeeSinkAddress := x\<rparr> \<and> a' = a\<lparr>sinkAddress_A := sk\<rparr> \<and>
           g' = g @ es \<and> set es \<subseteq> {GenSink}"
proof (cases "truthy (harvestNetworkFeeSinkAddress p)")
  case True
  with assms have "p' = p" "a' = a" "g' = g" by (simp_all add: fillHarvestNetworkFeeSink_def)
  then have "p' = p\<lparr>harvestNetworkFeeSinkAddress := harvestNetworkFeeSinkAddress p\<rparr> \<and>
     a' = a\<lparr>sinkAddress_A := sinkAddress_A a\<rparr> \<and> g' = g @ [] \<and> set [] \<subseteq> {GenSink}" by simp
  then show ?thesis by blast
next
  case False
  obtain x a1 g1 where d: "getDefaultSyncAddress s a g = (x, a1, g1)" by (cases "getDefaultSyncAddress s a g") auto
  with assms False have r: "p' = p\<lparr>harvestNetworkFeeSinkAddress := Some x\<rparr>" "a' = a1" "g' = g1"
    by (simp_all add: fillHarvestNetworkFeeSink_def)
  from getDefaultSyncAddress_cases[OF d] have
    "(a1 = a\<lparr>sinkAddress_A := sinkAddress_A a\<rparr> \<and> g1 = g @ [] \<and> set [] \<subseteq> {GenSink}) \<or>
     (a1 = a\<lparr>sinkAddress_A := Some x\<rparr> \<and> g1 = g @ [GenSink] \<and> set [GenSink] \<subseteq> {GenSink})" by auto
  with r show ?thesis by blast
qed

lemma fillMosaicRentalFeeSink_frame:
  assumes "fillMosaicRentalFeeSink s (a, p, g) = (a', p', g')"
  shows "\<exists>x sk es. p' = p\<lparr>mosaicRentalFeeSinkAddress := x\<rparr> \<and> a' = a\<lparr>sinkAddress_A := sk\<rparr> \<and>
           g' = g @ es \<and> set es \<subseteq> {GenSink}"
proof (cases "truthy (mosaicRentalFeeSinkAddress p)")
  case True
  with assms have "p' = p" "a' = a" "g' = g" by (simp_all add: fillMosaicRentalFeeSink_def)
  then have "p' = p\<lparr>mosaicRentalFeeSinkAddress := mosaicRentalFeeSinkAddress p\<rparr> \<and>
     a' = a\<lparr>sinkAddress_A := sinkAddress_A a\<rparr> \<and> g' = g @ [] \<and> set [] \<subseteq> {GenSink}" by simp
  then show ?thesis by blast
next
  case False
  obtain x a1 g1 where d: "getDefaultSyncAddress s a g = (x, a1, g1)" by (cases "getDefaultSyncAddress s a g") auto
  with assms False have r: "p' = p\<lparr>mosaicRentalFeeSinkAddress := Some x\<rparr>" "a' = a1" "g' = g1"
    by (simp_all add: fillMosaicRentalFeeSink_def)
  from getDefaultSyncAddress_cases[OF d] have
    "(a1 = a\<lparr>sinkAddress_A := sinkAddress_A a\<rparr> \<and> g1 = g @ [] \<and> set [] \<subseteq> {GenSink}) \<or>
     (a1 = a\<lparr>sinkAddress_A := Some x\<rparr> \<and> g1 = g @ [GenSink] \<and> set [GenSink] \<subseteq> {GenSink})" by auto
  with r show ?thesis by blast
qed

lemma fillNamespaceRentalFeeSink_frame:
  assumes "fillNamespaceRentalFeeSink s (a, p, g) = (a', p', g')"
  shows "\<exists>x sk es. p' = p\<lparr>namespaceRentalFeeSinkAddress := x\<rparr> \<and> a' = a\<lparr>sinkAddress_A := sk\<rparr> \<and>
           g' = g @ es \<and> set es \<subseteq> {GenSink}"
proof (cases "truthy (namespaceRentalFeeSinkAddress p)")
  case True
  with assms have "p' = p" "a' = a" "g' = g" by (simp_all add: fillNamespaceRentalFeeSink_def)
  then have "p' = p\<lparr>namespaceRentalFeeSinkAddress := namespaceRentalFeeSinkAddress p\<rparr> \<and>
     a' = a\<lparr>sinkAddress_A := sinkAddress_A a\<rparr> \<and> g' = g @ [] \<and> set [] \<subseteq> {GenSink}" by simp
  then show ?thesis by blast
next
  case False
  obtain x a1 g1 where d: "getDefaultSyncAddress s a g = (x, a1, g1)" by (cases "getDefaultSyncAddress s a g") auto
  with assms False have r: "p' = p\<lparr>namespaceRentalFeeSinkAddress := Some x\<rparr>" "a' = a1" "g' = g1"
    by (simp_all add: fillNamespaceRentalFeeSink_def)
  from getDefaultSyncAddress_cases[OF d] have
    "(a1 = a\<lparr>sinkAddress_A := sinkAddress_A a\<rparr> \<and> g1 = g @ [] \<and> set [] \<subseteq> {GenSink}) \<or>
     (a1 = a\<lparr>sinkAddress_A := Some x\<rparr> \<and> g1 = g @ [GenSink] \<and> set [GenSink] \<subseteq> {GenSink})" by auto
  with r show ?thesis by blast
qed

lemma sinkFills_frame:
  assumes "fillNamespaceRentalFeeSink s (fillMosaicRentalFeeSink s (fillHarvestNetworkFeeSink s (a, p, g))) = (a', p', g')"
  shows "\<exists>x y z sk es. p' = p\<lparr>harvestNetworkFeeSinkAddress := x, mosaicRentalFeeSinkAddress := y,
             namespaceRentalFeeSinkAddress := z\<rparr> \<and> a' = a\<lparr>sinkAddress_A := sk\<rparr> \<and>
           g' = g @ es \<and> set es \<subseteq> {GenSink}"
proof -
  obtain a1 p1 g1 where s1: "fillHarvestNetworkFeeSink s (a, p, g) = (a1, p1, g1)"
    by (cases "fillHarvestNetworkFeeSink s (a, p, g)") auto
  obtain a2 p2 g2 where s2: "fillMosaicRentalFeeSink s (a1, p1, g1) = (a2, p2, g2)"
    by (cases "fillMosaicRentalFeeSink s (a1, p1, g1)") auto
  from assms s1 s2 have s3: "fillNamespaceRentalFeeSink s (a2, p2, g2) = (a', p', g')" by simp
  from fillHarvestNetworkFeeSink_frame[OF s1] obtain x k1 e1 where
    f1: "p1 = p\<lparr>harvestNetworkFeeSinkAddress := x\<rparr>" "a1 = a\<lparr>sinkAddress_A := k1\<rparr>" "g1 = g @ e1" "set e1 \<subseteq> {GenSink}"
    by blast
  from fillMosaicRentalFeeSink_frame[OF s2] obtain y k2 e2 where
    f2: "p2 = p1\<lparr>mosaicRentalFeeSinkAddress := y\<rparr>" "a2 = a1\<lparr>sinkAddress_A := k2\<rparr>" "g2 = g1 @ e2" "set e2 \<subseteq> {GenSink}"
    by blast
  from fillNamespaceRentalFeeSink_frame[OF s3] obtain z k3 e3 where
    f3: "p' = p2\<lparr>namespaceRentalFeeSinkAddress := z\<rparr>" "a' = a2\<lparr>sinkAddress_A := k3\<rparr>" "g' = g2 @ e3" "set e3 \<subseteq> {GenSink}"
    by blast
  from f1 f2 f3 have "p' = p\<lparr>harvestNetworkFeeSinkAddress := x, mosaicRentalFeeSinkAddress := y,
             namespaceRentalFeeSinkAddress := z\<rparr> \<and> a' = a\<lparr>sinkAddress_A := k3\<rparr> \<and>
           g' = g @ (e1 @ e2 @ e3) \<and> set (e1 @ e2 @ e3) \<subseteq> {GenSink}" by simp
  then show ?thesis by blast
qed

lemma networkFields_frame:
  "\<exists>ni nn w. networkFields e a p = p\<lparr>networkIdentifier := ni, networkName := nn, nemesisGenerationHashSeed := w\<rparr>"
proof (cases "truthy (nemesisGenerationHashSeed p)")
  case True
  then have "networkFields e a p = p\<lparr>networkIdentifier := Some (getNetworkIdentifier e (networkType_A a)),
       networkName := Some (getNetworkName e (networkType_A a)), nemesisGenerationHashSeed := nemesisGenerationHashSeed p\<rparr>"
    by (simp add: networkFields_def Let_def)
  then show ?thesis by blast
next
  case False
  then have "networkFields e a p = p\<lparr>networkIdentifier := Some (getNetworkIdentifier e (networkType_A a)),
       networkName := Some (getNetworkName e (networkType_A a)), nemesisGenerationHashSeed := nemesisGenerationHashSeed_A a\<rparr>"
    by (simp add: networkFields_def Let_def)
  then show ?thesis by blast
qed

lemma nemesisSignerStage_Inr:
  assumes "nemesisSignerStage s e mode old (a, p, g) = Some (Inr (a', p', g'))"
  shows "(\<not> shouldCreateNemesis e p \<and> a' = a \<and> p' = p \<and> g' = g) \<or>
         (shouldCreateNemesis e p \<and>
          (\<exists>nem sg pk key es. nemesis p = Some nem \<and> a' = a\<lparr>nemesisSigner := sg\<rparr> \<and>
             p' = p\<lparr>nemesisSignerPublicKey := pk,
                    nemesis := Some (nem\<lparr>nemesisSignerPrivateKey := key\<rparr>)\<rparr> \<and>
             g' = g @ es \<and> keysOnly es))"
proof (cases "shouldCreateNemesis e p")
  case False
  with assms show ?thesis by (simp add: nemesisSignerStage_def)
next
  case True
  then obtain nem where nem: "nemesis p = Some nem" by (auto simp: shouldCreateNemesis_def)
  obtain signer g1 where
    ga: "generateAccount s mode NemesisSigner (Option.bind old nemesisSigner)
           (nemesisSignerPrivateKey nem) (nemesisSignerPublicKey p) g = Inr (signer, g1)"
    using assms True nem unfolding nemesisSignerStage_def
    by (cases "generateAccount s mode NemesisSigner (Option.bind old nemesisSigner)
           (nemesisSignerPrivateKey nem) (nemesisSignerPublicKey p) g") auto
  obtain key signer' where rp: "resolvePrivateKey s signer (promptResponses e) = Some (key, signer')"
    using assms True nem ga unfolding nemesisSignerStage_def
    by (cases "resolvePrivateKey s signer (promptResponses e)") auto
  from assms True nem ga rp have r: "a' = a\<lparr>nemesisSigner := Some signer'\<rparr>"
    "p' = p\<lparr>nemesisSignerPublicKey := Some (publicKey signer),
            nemesis := Some (nem\<lparr>nemesisSignerPrivateKey := Some key\<rparr>)\<rparr>" "g' = g1"
    unfolding nemesisSignerStage_def by simp_all
  from generateAccount_keysOnly[OF ga] obtain es where "g1 = g @ es" "keysOnly es" by blast
  with r nem True show ?thesis by blast
qed

lemma mosaicIdStage_Inr:
  assumes "mosaicIdStage s p = Inr (addr, p')"
  shows "\<exists>c h. p' = p\<lparr>currencyMosaicId := c, harvestingMosaicId := h\<rparr>"
proof -
  obtain pk where pk: "nemesisSignerPublicKey p = Some pk"
    using assms unfolding mosaicIdStage_def by (cases "nemesisSignerPublicKey p") auto
  define p1 where "p1 = (if \<not> truthy (currencyMosaicId p)
                     then p\<lparr>currencyMosaicId := Some (mosaicIdOf s 0 (addressOf s pk))\<rparr> else p)"
  have p1: "\<exists>c. p1 = p\<lparr>currencyMosaicId := c\<rparr>"
  proof (cases "truthy (currencyMosaicId p)")
    case True
    then have "p1 = p\<lparr>currencyMosaicId := currencyMosaicId p\<rparr>" by (simp add: p1_def)
    then show ?thesis by blast
  next
    case False
    then show ?thesis unfolding p1_def by auto
  qed
  have eq: "mosaicIdStage s p =
      (if \<not> truthy (harvestingMosaicId p1)
       then (case nemesis p1 of
               None \<Rightarrow> Inl NemesisMustBeDefined
             | Some nem \<Rightarrow>
                 if (case mosaics nem of None \<Rightarrow> False | Some ms \<Rightarrow> 1 < length ms)
                 then Inr (addressOf s pk, p1\<lparr>harvestingMosaicId := Some (mosaicIdOf s 1 (addressOf s pk))\<rparr>)
                 else Inr (addressOf s pk, p1\<lparr>harvestingMosaicId := currencyMosaicId p1\<rparr>))
       else Inr (addressOf s pk, p1))"
    using pk unfolding mosaicIdStage_def p1_def by (simp add: Let_def)
  have "\<exists>h. p' = p1\<lparr>harvestingMosaicId := h\<rparr>"
  proof (cases "truthy (harvestingMosaicId p1)")
    case True
    with assms eq have "p' = p1" by simp
    then have "p' = p1\<lparr>harvestingMosaicId := harvestingMosaicId p1\<rparr>" by simp
    then show ?thesis by blast
  next
    case False
    with assms eq show ?thesis by (auto split: option.splits if_splits)
  qed
  with p1 show ?thesis by auto
qed

lemma preNemesis_frame:
  assumes "preNemesis s e old p g = Some (Inr (sc, addr, a, p', g'))"
  shows "sc = shouldCreateNemesis e p \<and> nodes p' = nodes p \<and>
         maxHarvesterBalance p' = maxHarvesterBalance p \<and>
         map_option mosaics (nemesis p') = map_option mosaics (nemesis p) \<and>
         mosaics_A a = None \<and>
         (\<exists>e1 e2 e3. g' = g @ e1 @ e2 @ e3 \<and> keysOnly e1 \<and> set e2 \<subseteq> {GenSink} \<and> keysOnly e3)"
proof -
  from preNemesis_Inr[OF assms] obtain a1 g1 a2 p2 g2 mode p4 where
    i: "initialAddresses s e old p g = Inr (a1, g1)" and
    f: "fillNamespaceRentalFeeSink s (fillMosaicRentalFeeSink s (fillHarvestNetworkFeeSink s (a1, p, g1))) = (a2, p2, g2)" and
    n: "nemesisSignerStage s e mode old (a2, networkFields e a2 p2, g2) = Some (Inr (a, p4, g'))" and
    m: "mosaicIdStage s p4 = Inr (addr, p')" and
    sc: "sc = shouldCreateNemesis e (networkFields e a2 p2)" by blast
  from initialAddresses_Inr[OF i] obtain e1 where
    i': "mosaics_A a1 = None" "g1 = g @ e1" "keysOnly e1" by blast
  from sinkFills_frame[OF f] obtain x y z sk e2 where
    f': "p2 = p\<lparr>harvestNetworkFeeSinkAddress := x, mosaicRentalFeeSinkAddress := y,
             namespaceRentalFeeSinkAddress := z\<rparr>" "a2 = a1\<lparr>sinkAddress_A := sk\<rparr>"
        "g2 = g1 @ e2" "set e2 \<subseteq> {GenSink}" by blast
  obtain ni nn w where nf: "networkFields e a2 p2 =
      p2\<lparr>networkIdentifier := ni, networkName := nn, nemesisGenerationHashSeed := w\<rparr>"
    using networkFields_frame by blast
  from mosaicIdStage_Inr[OF m] obtain c h where
    m': "p' = p4\<lparr>currencyMosaicId := c, harvestingMosaicId := h\<rparr>" by blast
  have sc': "sc = shouldCreateNemesis e p" using sc nf f' by (simp add: shouldCreateNemesis_def)
  from nemesisSignerStage_Inr[OF n] have
    "(a = a2 \<and> p4 = networkFields e a2 p2 \<and> g' = g2) \<or>
     (\<exists>nem sg pk key es. nemesis (networkFields e a2 p2) = Some nem \<and> a = a2\<lparr>nemesisSigner := sg\<rparr> \<and>
             p4 = (networkFields e a2 p2)\<lparr>nemesisSignerPublicKey := pk,
                    nemesis := Some (nem\<lparr>nemesisSignerPrivateKey := key\<rparr>)\<rparr> \<and>
             g' = g2 @ es \<and> keysOnly es)" by blast
  then show ?thesis
  proof
    assume h: "a = a2 \<and> p4 = networkFields e a2 p2 \<and> g' = g2"
    then have "g' = g @ e1 @ e2 @ []" using i' f' by simp
    moreover have "keysOnly []" by simp
    ultimately have "\<exists>e1 e2 e3. g' = g @ e1 @ e2 @ e3 \<and> keysOnly e1 \<and> set e2 \<subseteq> {GenSink} \<and> keysOnly e3"
      using i' f' by blast
    with h sc' nf f' m' i' show ?thesis by simp
  next
    assume "\<exists>nem sg pk key es. nemesis (networkFields e a2 p2) = Some nem \<and> a = a2\<lparr>nemesisSigner := sg\<rparr> \<and>
             p4 = (networkFields e a2 p2)\<lparr>nemesisSignerPublicKey := pk,
                    nemesis := Some (nem\<lparr>nemesisSignerPrivateKey := key\<rparr>)\<rparr> \<and>
             g' = g2 @ es \<and> keysOnly es"
    then obtain nem sg pk key e3 where h:
      "nemesis (networkFields e a2 p2) = Some nem" "a = a2\<lparr>nemesisSigner := sg\<rparr>"
      "p4 = (networkFields e a2 p2)\<lparr>nemesisSignerPublicKey := pk,
                    nemesis := Some (nem\<lparr>nemesisSignerPrivateKey := key\<rparr>)\<rparr>"
      "g' = g2 @ e3" "keysOnly e3" by blast
    then have "g' = g @ e1 @ e2 @ e3" using i' f' by simp
    then have "\<exists>e1 e2 e3. g' = g @ e1 @ e2 @ e3 \<and> keysOnly e1 \<and> set e2 \<subseteq> {GenSink} \<and> keysOnly e3"
      using i' f' h by blast
    moreover from h nf f' have "nemesis p = Some nem" by simp
    ultimately show ?thesis using h sc' nf f' m' i' by simp
  qed
qed

lemma generateRandomConfiguration_Inr:
  assumes "generateRandomConfiguration s e old oldP p g = Some (Inr r)"
  shows "\<exists>sc addr a p1 g1. preNemesis s e old p g = Some (Inr (sc, addr, a, p1, g1)) \<and>
           nemesisStage s sc old oldP addr (a, p1, g1) = Inr r"
  using assms unfolding generateRandomConfiguration_def
  by (auto split: option.splits sum.splits)

lemma nemesisStage_fresh:
  assumes "nemesis p = Some nem" and "mosaics nem = Some ms"
  shows "nemesisStage s True None oldP addr (a, p, g) =
     (case processMosaicsFrom s p (case nodes_A a of None \<Rightarrow> [] | Some ns \<Rightarrow> ns) addr (length ms) 0 ms g of
        Inl err \<Rightarrow> Inl err
      | Inr (ms', accs, g') \<Rightarrow>
          Inr (a\<lparr>mosaics_A := Some accs\<rparr>, p\<lparr>nemesis := Some (nem\<lparr>mosaics := Some ms'\<rparr>)\<rparr>, g'))"
  using assms by (simp add: nemesisStage_def)

lemma processMosaicsFrom_append:
  "processMosaicsFrom s p ns addr len k (xs @ ys) g =
     (case processMosaicsFrom s p ns addr len k xs g of
        Inl err \<Rightarrow> Inl err
      | Inr (xs', a1, g1) \<Rightarrow>
          (case processMosaicsFrom s p ns addr len (k + length xs) ys g1 of
             Inl err \<Rightarrow> Inl err
           | Inr (ys', a2, g2) \<Rightarrow> Inr (xs' @ ys', a1 @ a2, g2)))"
proof (induction xs arbitrary: k g)
  case Nil
  show ?case by (simp split: sum.splits prod.splits)
next
  case (Cons x xs)
  show ?case
    by (simp add: Cons.IH split: sum.splits prod.splits)
qed

lemma processMosaic_mismatch:
  assumes "generateAddresses s (GenNemesisAccount i) (accountsOrOne (accounts_MP m)) g = Inr (accounts, g1)"
      and "correctionStep p ns len m i accounts = Inr corrected"
      and "sum_D (name_MP m) corrected = Inr supplied"
      and "supplied \<noteq> supply_MP m"
  shows "processMosaic s p ns addr len m i g = Inl (InvalidTotalSupplied (supply_MP m) supplied)"
  using assms by (simp add: processMosaic_def checkSupplied_def)

section \<open>Properties of the nemesis distribution\<close>

text \<open>
  Claim C1. On a fresh run (no old addresses) that creates the nemesis and returns, every
  mosaic of the preset comes back with a \<^verbatim>\<open>currencyDistributions\<close> list whose amounts
  are not negative and whose sum, as the code computes it, is the supply of the mosaic;
  and when that supply is a safe integer (at most \<^verbatim>\<open>Number.MAX_SAFE_INTEGER\<close>), the exact
  sum of the amounts, as integers, is the supply. And when, for a mosaic the loop reaches,
  the sum the code computes for the list differs from the supply, the run throws the error
  of line 198 and returns no addresses.
\<close>

theorem nemesis_supply_conserved:
  "(generateRandomConfiguration s e None oldPresetData presetData g =
      Some (Inr (addresses, presetData', g')) \<and>
    shouldCreateNemesis e presetData \<and> nemesis presetData = Some nem \<and> mosaics nem = Some ms \<longrightarrow>
      (\<exists>nem' ms'. nemesis presetData' = Some nem' \<and> mosaics nem' = Some ms' \<and>
          length ms' = length ms \<and>
          (\<forall>k<length ms. \<exists>ds. ms' ! k = (ms ! k)\<lparr>currencyDistributions := Some ds\<rparr> \<and>
               sum_D (name_MP (ms ! k)) ds = Inr (supply_MP (ms ! k)) \<and>
               (\<forall>d\<in>set ds. 0 \<le> amount d) \<and>
               (supply_MP (ms ! k) \<le> MAX_SAFE_INTEGER \<longrightarrow>
                  sum_list (map amount ds) = supply_MP (ms ! k))))) \<and>
   (preNemesis s e None presetData g = Some (Inr (True, signerAddress, a, p, g1)) \<and>
    nemesis p = Some nem1 \<and> mosaics nem1 = Some (before @ m # after) \<and>
    processMosaicsFrom s p (case nodes_A a of None \<Rightarrow> [] | Some ns \<Rightarrow> ns) signerAddress
      (length (before @ m # after)) 0 before g1 = Inr (before', accs, g2) \<and>
    generateAddresses s (GenNemesisAccount (length before)) (accountsOrOne (accounts_MP m)) g2 =
      Inr (accounts, g3) \<and>
    correctionStep p (case nodes_A a of None \<Rightarrow> [] | Some ns \<Rightarrow> ns)
      (length (before @ m # after)) m (length before) accounts = Inr corrected \<and>
    sum_D (name_MP m) corrected = Inr supplied \<and> supplied \<noteq> supply_MP m \<longrightarrow>
      generateRandomConfiguration s e None oldPresetData presetData g =
        Some (Inl (InvalidTotalSupplied (supply_MP m) supplied)))"
proof (intro conjI impI)
  assume h: "generateRandomConfiguration s e None oldPresetData presetData g =
      Some (Inr (addresses, presetData', g')) \<and>
    shouldCreateNemesis e presetData \<and> nemesis presetData = Some nem \<and> mosaics nem = Some ms"
  then obtain sc addr a0 p0 g0 where
    pre: "preNemesis s e None presetData g = Some (Inr (sc, addr, a0, p0, g0))" and
    st: "nemesisStage s sc None oldPresetData addr (a0, p0, g0) = Inr (addresses, presetData', g')"
    using generateRandomConfiguration_Inr by blast
  from preNemesis_frame[OF pre] h have sc: "sc = True" and
    mo: "map_option mosaics (nemesis p0) = Some (Some ms)" by simp_all
  from mo obtain nem0 where nem0: "nemesis p0 = Some nem0" "mosaics nem0 = Some ms" by auto
  from st sc nemesisStage_fresh[OF nem0, of s oldPresetData addr a0 g0]
  obtain ms' accs where
    pm: "processMosaicsFrom s p0 (case nodes_A a0 of None \<Rightarrow> [] | Some ns \<Rightarrow> ns) addr (length ms) 0 ms g0
           = Inr (ms', accs, g')" and
    p': "presetData' = p0\<lparr>nemesis := Some (nem0\<lparr>mosaics := Some ms'\<rparr>)\<rparr>"
    by (auto split: sum.splits prod.splits)
  from processMosaicsFrom_Inr[OF pm] p'
  show "\<exists>nem' ms'. nemesis presetData' = Some nem' \<and> mosaics nem' = Some ms' \<and>
          length ms' = length ms \<and>
          (\<forall>k<length ms. \<exists>ds. ms' ! k = (ms ! k)\<lparr>currencyDistributions := Some ds\<rparr> \<and>
               sum_D (name_MP (ms ! k)) ds = Inr (supply_MP (ms ! k)) \<and>
               (\<forall>d\<in>set ds. 0 \<le> amount d) \<and>
               (supply_MP (ms ! k) \<le> MAX_SAFE_INTEGER \<longrightarrow>
                  sum_list (map amount ds) = supply_MP (ms ! k)))"
    by simp
next
  assume h: "preNemesis s e None presetData g = Some (Inr (True, signerAddress, a, p, g1)) \<and>
    nemesis p = Some nem1 \<and> mosaics nem1 = Some (before @ m # after) \<and>
    processMosaicsFrom s p (case nodes_A a of None \<Rightarrow> [] | Some ns \<Rightarrow> ns) signerAddress
      (length (before @ m # after)) 0 before g1 = Inr (before', accs, g2) \<and>
    generateAddresses s (GenNemesisAccount (length before)) (accountsOrOne (accounts_MP m)) g2 =
      Inr (accounts, g3) \<and>
    correctionStep p (case nodes_A a of None \<Rightarrow> [] | Some ns \<Rightarrow> ns)
      (length (before @ m # after)) m (length before) accounts = Inr corrected \<and>
    sum_D (name_MP m) corrected = Inr supplied \<and> supplied \<noteq> supply_MP m"
  let ?ns = "case nodes_A a of None \<Rightarrow> [] | Some ns \<Rightarrow> ns"
  let ?len = "length (before @ m # after)"
  from h have "processMosaic s p ?ns signerAddress ?len m (length before) g2 =
      Inl (InvalidTotalSupplied (supply_MP m) supplied)"
    by (intro processMosaic_mismatch) blast+
  then have "processMosaicsFrom s p ?ns signerAddress ?len (0 + length before) (m # after) g2 =
      Inl (InvalidTotalSupplied (supply_MP m) supplied)" by simp
  with h have "processMosaicsFrom s p ?ns signerAddress ?len 0 (before @ m # after) g1 =
      Inl (InvalidTotalSupplied (supply_MP m) supplied)"
    by (simp only: processMosaicsFrom_append sum.case prod.case)
  with h have "nemesisStage s True None oldPresetData signerAddress (a, p, g1) =
      Inl (InvalidTotalSupplied (supply_MP m) supplied)"
    using nemesisStage_fresh[of p nem1 "before @ m # after" s oldPresetData signerAddress a g1]
    by simp
  with h show "generateRandomConfiguration s e None oldPresetData presetData g =
        Some (Inl (InvalidTotalSupplied (supply_MP m) supplied))"
    by (simp add: generateRandomConfiguration_def)
qed

lemma example_succeeded:
  "succeeded (generateRandomConfiguration exampleSdk exampleEnv None None examplePreset [])"
  by code_simp

lemma example_preNemesis:
  "preNemesis exampleSdk exampleEnv None exampleExplicit [] =
     Some (Inr (True, ''TPAB'',
       \<lparr>version_A = 2, networkType_A = 152, nemesisGenerationHashSeed_A = Some ''AA'',
        sinkAddress_A = Some ''TS'', nodes_A = None,
        nemesisSigner = Some \<lparr>privateKey = Some ''AB'', publicKey = ''PAB'', address = ''TPAB''\<rparr>,
        mosaics_A = None\<rparr>,
       exampleExplicit\<lparr>networkIdentifier := Some ''testnet'', networkName := Some ''testnet'',
         nemesisSignerPublicKey := Some ''PAB'', currencyMosaicId := Some ''0TPAB'',
         harvestingMosaicId := Some ''0TPAB''\<rparr>, []))"
  by code_simp

lemma example_correctionStep:
  "correctionStep
     (exampleExplicit\<lparr>networkIdentifier := Some ''testnet'', networkName := Some ''testnet'',
         nemesisSignerPublicKey := Some ''PAB'', currencyMosaicId := Some ''0TPAB'',
         harvestingMosaicId := Some ''0TPAB''\<rparr>) [] 1 exampleExplicitMosaic 0
     [\<lparr>privateKey = Some ''F'', publicKey = ''PF'', address = ''TPF''\<rparr>] =
   Inr [\<lparr>address_D = ''TX'', amount = 0\<rparr>]"
  by code_simp

lemma example_generateAddresses:
  "generateAddresses exampleSdk (GenNemesisAccount 0) (accountsOrOne (accounts_MP exampleExplicitMosaic)) [] =
     Inr ([\<lparr>privateKey = Some ''F'', publicKey = ''PF'', address = ''TPF''\<rparr>], [GenNemesisAccount 0])"
  by code_simp

theorem nemesis_supply_conserved_witness:
  "(\<exists>addresses presetData' g' nem' ms' ds.
      generateRandomConfiguration exampleSdk exampleEnv None None examplePreset [] =
        Some (Inr (addresses, presetData', g')) \<and>
      nemesis presetData' = Some nem' \<and> mosaics nem' = Some ms' \<and>
      ms' ! 0 = exampleMosaic\<lparr>currencyDistributions := Some ds\<rparr> \<and>
      sum_list (map amount ds) = 100) \<and>
   generateRandomConfiguration exampleSdk exampleEnv None None exampleExplicit [] =
     Some (Inl (InvalidTotalSupplied 10 0))"
proof
  from example_succeeded obtain addresses presetData' g' where
    r: "generateRandomConfiguration exampleSdk exampleEnv None None examplePreset [] =
          Some (Inr (addresses, presetData', g'))"
    by (auto simp: succeeded_def split: option.splits sum.splits)
  have sc: "shouldCreateNemesis exampleEnv examplePreset"
    by (simp add: shouldCreateNemesis_def exampleEnv_def examplePreset_def)
  have nem: "nemesis examplePreset = Some \<lparr>nemesisSignerPrivateKey = None, mosaics = Some [exampleMosaic]\<rparr>"
    by (simp add: examplePreset_def)
  have ms: "mosaics \<lparr>nemesisSignerPrivateKey = None, mosaics = Some [exampleMosaic]\<rparr> = Some [exampleMosaic]"
    by simp
  have sf: "supply_MP exampleMosaic \<le> MAX_SAFE_INTEGER"
    by (simp add: exampleMosaic_def MAX_SAFE_INTEGER_def)
  have H: "generateRandomConfiguration exampleSdk exampleEnv None None examplePreset [] =
      Some (Inr (addresses, presetData', g')) \<and>
    shouldCreateNemesis exampleEnv examplePreset \<and>
    nemesis examplePreset = Some \<lparr>nemesisSignerPrivateKey = None, mosaics = Some [exampleMosaic]\<rparr> \<and>
    mosaics \<lparr>nemesisSignerPrivateKey = None, mosaics = Some [exampleMosaic]\<rparr> = Some [exampleMosaic]"
    using r sc nem ms by blast
  from nemesis_supply_conserved[THEN conjunct1, rule_format, OF H]
  obtain nem' ms' ds where "nemesis presetData' = Some nem'" "mosaics nem' = Some ms'"
    "ms' ! 0 = exampleMosaic\<lparr>currencyDistributions := Some ds\<rparr>"
    "supply_MP exampleMosaic \<le> MAX_SAFE_INTEGER \<longrightarrow> sum_list (map amount ds) = supply_MP exampleMosaic"
    by auto
  with sf have "sum_list (map amount ds) = supply_MP exampleMosaic" by simp
  note w = \<open>nemesis presetData' = Some nem'\<close> \<open>mosaics nem' = Some ms'\<close>
    \<open>ms' ! 0 = exampleMosaic\<lparr>currencyDistributions := Some ds\<rparr>\<close> this
  from w r show "\<exists>addresses presetData' g' nem' ms' ds.
      generateRandomConfiguration exampleSdk exampleEnv None None examplePreset [] =
        Some (Inr (addresses, presetData', g')) \<and>
      nemesis presetData' = Some nem' \<and> mosaics nem' = Some ms' \<and>
      ms' ! 0 = exampleMosaic\<lparr>currencyDistributions := Some ds\<rparr> \<and>
      sum_list (map amount ds) = 100"
    by (auto simp: exampleMosaic_def)
next
  let ?p = "exampleExplicit\<lparr>networkIdentifier := Some ''testnet'', networkName := Some ''testnet'',
         nemesisSignerPublicKey := Some ''PAB'', currencyMosaicId := Some ''0TPAB'',
         harvestingMosaicId := Some ''0TPAB''\<rparr>"
  let ?a = "\<lparr>version_A = 2, networkType_A = 152, nemesisGenerationHashSeed_A = Some ''AA'',
        sinkAddress_A = Some ''TS'', nodes_A = None,
        nemesisSigner = Some \<lparr>privateKey = Some ''AB'', publicKey = ''PAB'', address = ''TPAB''\<rparr>,
        mosaics_A = None\<rparr>"
  let ?nem = "\<lparr>nemesisSignerPrivateKey = Some ''AB'', mosaics = Some [exampleExplicitMosaic]\<rparr>"
  have h1: "nemesis ?p = Some ?nem" by (simp add: exampleExplicit_def)
  have h2: "mosaics ?nem = Some ([] @ exampleExplicitMosaic # [])" by simp
  have h3: "processMosaicsFrom exampleSdk ?p (case nodes_A ?a of None \<Rightarrow> [] | Some ns \<Rightarrow> ns) ''TPAB''
      (length ([] @ exampleExplicitMosaic # [])) 0 [] [] = Inr ([], [], [])" by simp
  have h4: "generateAddresses exampleSdk (GenNemesisAccount (length ([] :: MosaicPreset list)))
      (accountsOrOne (accounts_MP exampleExplicitMosaic)) [] =
      Inr ([\<lparr>privateKey = Some ''F'', publicKey = ''PF'', address = ''TPF''\<rparr>], [GenNemesisAccount 0])"
    using example_generateAddresses by simp
  have h5: "correctionStep ?p (case nodes_A ?a of None \<Rightarrow> [] | Some ns \<Rightarrow> ns)
      (length ([] @ exampleExplicitMosaic # [])) exampleExplicitMosaic (length ([] :: MosaicPreset list))
      [\<lparr>privateKey = Some ''F'', publicKey = ''PF'', address = ''TPF''\<rparr>] =
      Inr [\<lparr>address_D = ''TX'', amount = 0\<rparr>]"
    using example_correctionStep by simp
  have h6: "sum_D (name_MP exampleExplicitMosaic) [\<lparr>address_D = ''TX'', amount = 0\<rparr>] = Inr 0"
    by (simp add: sum_D_def addN_def roundD_def)
  have h7: "(0::int) \<noteq> supply_MP exampleExplicitMosaic" by (simp add: exampleExplicitMosaic_def)
  have H: "preNemesis exampleSdk exampleEnv None exampleExplicit [] = Some (Inr (True, ''TPAB'', ?a, ?p, [])) \<and>
    nemesis ?p = Some ?nem \<and> mosaics ?nem = Some ([] @ exampleExplicitMosaic # []) \<and>
    processMosaicsFrom exampleSdk ?p (case nodes_A ?a of None \<Rightarrow> [] | Some ns \<Rightarrow> ns) ''TPAB''
      (length ([] @ exampleExplicitMosaic # [])) 0 [] [] = Inr ([], [], []) \<and>
    generateAddresses exampleSdk (GenNemesisAccount (length ([] :: MosaicPreset list)))
      (accountsOrOne (accounts_MP exampleExplicitMosaic)) [] =
      Inr ([\<lparr>privateKey = Some ''F'', publicKey = ''PF'', address = ''TPF''\<rparr>], [GenNemesisAccount 0]) \<and>
    correctionStep ?p (case nodes_A ?a of None \<Rightarrow> [] | Some ns \<Rightarrow> ns)
      (length ([] @ exampleExplicitMosaic # [])) exampleExplicitMosaic (length ([] :: MosaicPreset list))
      [\<lparr>privateKey = Some ''F'', publicKey = ''PF'', address = ''TPF''\<rparr>] =
      Inr [\<lparr>address_D = ''TX'', amount = 0\<rparr>] \<and>
    sum_D (name_MP exampleExplicitMosaic) [\<lparr>address_D = ''TX'', amount = 0\<rparr>] = Inr 0 \<and>
    (0::int) \<noteq> supply_MP exampleExplicitMosaic"
    using example_preNemesis h1 h2 h3 h4 h5 h6 h7 by blast
  from nemesis_supply_conserved[THEN conjunct2, rule_format, OF H, of None]
  show "generateRandomConfiguration exampleSdk exampleEnv None None exampleExplicit [] =
     Some (Inl (InvalidTotalSupplied 10 0))"
    by (simp add: exampleExplicitMosaic_def)
qed

text \<open>
  Above the safe integers the check of line 197 compares rounded sums. With a supply of
  \<open>2 ^ 53 + 4\<close>, one free account and a provided amount of 1, the run returns a list whose
  exact sum is the supply plus 1.
\<close>

theorem unsafe_supply_counterexample:
  "map_option (map_sum id (\<lambda>(a, p, g). map_option mosaics (nemesis p)))
     (generateRandomConfiguration exampleSdk exampleEnv None None
        (exampleExplicit\<lparr>nemesis := Some \<lparr>nemesisSignerPrivateKey = Some ''AB'',
           mosaics = Some [exampleExplicitMosaic\<lparr>supply_MP := 9007199254740996,
             currencyDistributions := Some [\<lparr>address_D = ''TX'', amount = 1\<rparr>]\<rparr>]\<rparr>\<rparr>) []) =
   Some (Inr (Some (Some [exampleExplicitMosaic\<lparr>supply_MP := 9007199254740996,
      currencyDistributions := Some [\<lparr>address_D = ''TPF'', amount = 9007199254740996\<rparr>,
                                     \<lparr>address_D = ''TX'', amount = 1\<rparr>]\<rparr>]))) \<and>
   sum_list (map amount [\<lparr>address_D = ''TPF'', amount = 9007199254740996\<rparr>,
                         \<lparr>address_D = ''TX'', amount = 1\<rparr>]) = 9007199254740997"
  by code_simp


















lemma nemesisStage_upgrade:
  "nemesisStage s True (Some oldA) oldP addr (a, p, g) =
     (case oldP of
        None \<Rightarrow> Inl OldPresetDataMustBeDefined
      | Some oldPreset \<Rightarrow>
          Inr (a\<lparr>mosaics_A := mosaics_A oldA\<rparr>, p\<lparr>nemesis := nemesis oldPreset\<rparr>, g))"
  by (simp add: nemesisStage_def)


section \<open>Properties of the run: upgrade and sink address\<close>

text \<open>
  Claim C8. When a run with old addresses creates the nemesis and returns, the old preset
  was given, the mosaics of the returned addresses are the mosaics of the old addresses,
  and the nemesis of the preset is the nemesis of the old preset. The returned state is
  the state before the nemesis stage with these two fields replaced: no mosaic is
  distributed, and the run generates no free account of a mosaic. For such a preset
  \<^verbatim>\<open>resolveNemesis\<close> on an upgrade generates no nemesis either.
\<close>

theorem upgrade_keeps_nemesis:
  "generateRandomConfiguration s e (Some oldAddresses) oldPresetData presetData g =
      Some (Inr (addresses, presetData', g')) \<and>
   shouldCreateNemesis e presetData \<longrightarrow>
     (\<exists>oldPreset signerAddress a p.
        oldPresetData = Some oldPreset \<and>
        mosaics_A addresses = mosaics_A oldAddresses \<and>
        nemesis presetData' = nemesis oldPreset \<and>
        preNemesis s e (Some oldAddresses) presetData g = Some (Inr (True, signerAddress, a, p, g')) \<and>
        addresses = a\<lparr>mosaics_A := mosaics_A oldAddresses\<rparr> \<and>
        presetData' = p\<lparr>nemesis := nemesis oldPreset\<rparr> \<and>
        (\<exists>es. g' = g @ es \<and> (\<forall>ev\<in>set es. \<forall>i. ev \<noteq> GenNemesisAccount i)) \<and>
        (shouldCreateNemesis e presetData' \<longrightarrow>
           resolveNemesis e presetData' True = Inr NothingOnUpgrade))"
proof
  assume h: "generateRandomConfiguration s e (Some oldAddresses) oldPresetData presetData g =
      Some (Inr (addresses, presetData', g')) \<and> shouldCreateNemesis e presetData"
  then obtain sc addr a p g1 where
    pre: "preNemesis s e (Some oldAddresses) presetData g = Some (Inr (sc, addr, a, p, g1))" and
    st: "nemesisStage s sc (Some oldAddresses) oldPresetData addr (a, p, g1) =
           Inr (addresses, presetData', g')"
    using generateRandomConfiguration_Inr by blast
  from preNemesis_frame[OF pre] h obtain e1 e2 e3 where
    sc: "sc = True" and tr: "g1 = g @ e1 @ e2 @ e3" "keysOnly e1" "set e2 \<subseteq> {GenSink}" "keysOnly e3"
    by auto
  from st sc obtain oldPreset where op: "oldPresetData = Some oldPreset"
    by (cases oldPresetData) (simp_all add: nemesisStage_upgrade)
  with st sc have r: "addresses = a\<lparr>mosaics_A := mosaics_A oldAddresses\<rparr>"
    "presetData' = p\<lparr>nemesis := nemesis oldPreset\<rparr>" "g' = g1"
    by (simp_all add: nemesisStage_upgrade)
  have notr: "\<forall>ev\<in>set (e1 @ e2 @ e3). \<forall>i. ev \<noteq> GenNemesisAccount i"
    using tr by (auto simp: keysOnly_def)
  have ex: "\<exists>es. g' = g @ es \<and> (\<forall>ev\<in>set es. \<forall>i. ev \<noteq> GenNemesisAccount i)"
    using tr(1) r(3) notr by (intro exI[of _ "e1 @ e2 @ e3"]) simp
  have rn: "shouldCreateNemesis e presetData' \<longrightarrow>
           resolveNemesis e presetData' True = Inr NothingOnUpgrade"
    by (simp add: resolveNemesis_def)
  from r have m: "mosaics_A addresses = mosaics_A oldAddresses" "nemesis presetData' = nemesis oldPreset"
    by simp_all
  from pre sc r(3) have pre': "preNemesis s e (Some oldAddresses) presetData g =
      Some (Inr (True, addr, a, p, g'))" by simp
  show "\<exists>oldPreset signerAddress a p.
        oldPresetData = Some oldPreset \<and>
        mosaics_A addresses = mosaics_A oldAddresses \<and>
        nemesis presetData' = nemesis oldPreset \<and>
        preNemesis s e (Some oldAddresses) presetData g = Some (Inr (True, signerAddress, a, p, g')) \<and>
        addresses = a\<lparr>mosaics_A := mosaics_A oldAddresses\<rparr> \<and>
        presetData' = p\<lparr>nemesis := nemesis oldPreset\<rparr> \<and>
        (\<exists>es. g' = g @ es \<and> (\<forall>ev\<in>set es. \<forall>i. ev \<noteq> GenNemesisAccount i)) \<and>
        (shouldCreateNemesis e presetData' \<longrightarrow>
           resolveNemesis e presetData' True = Inr NothingOnUpgrade)"
    using op m pre' r(1,2) ex rn
    by (intro exI[of _ oldPreset] exI[of _ addr] exI[of _ a] exI[of _ p] conjI)
qed

lemma example_upgrade_succeeded:
  "succeeded (generateRandomConfiguration exampleSdk exampleEnv (Some exampleOldAddresses)
     (Some exampleOldPreset) examplePreset [])"
  by code_simp

theorem upgrade_keeps_nemesis_witness:
  "\<exists>addresses presetData' g'.
     generateRandomConfiguration exampleSdk exampleEnv (Some exampleOldAddresses)
       (Some exampleOldPreset) examplePreset [] = Some (Inr (addresses, presetData', g')) \<and>
     mosaics_A addresses = Some [\<lparr>id_MA = ''0X'', name_MA = ''currency'', accounts_MA = []\<rparr>] \<and>
     nemesis presetData' = Some \<lparr>nemesisSignerPrivateKey = None, mosaics = Some []\<rparr> \<and>
     GenNemesisAccount 0 \<notin> set g'"
proof -
  from example_upgrade_succeeded obtain addresses presetData' g' where
    r: "generateRandomConfiguration exampleSdk exampleEnv (Some exampleOldAddresses)
       (Some exampleOldPreset) examplePreset [] = Some (Inr (addresses, presetData', g'))"
    by (auto simp: succeeded_def split: option.splits sum.splits)
  have sc: "shouldCreateNemesis exampleEnv examplePreset"
    by (simp add: shouldCreateNemesis_def exampleEnv_def examplePreset_def)
  have H: "generateRandomConfiguration exampleSdk exampleEnv (Some exampleOldAddresses)
       (Some exampleOldPreset) examplePreset [] = Some (Inr (addresses, presetData', g')) \<and>
     shouldCreateNemesis exampleEnv examplePreset" using r sc by (rule conjI)
  from upgrade_keeps_nemesis[rule_format, OF H]
  obtain oldPreset es where
    "Some exampleOldPreset = Some oldPreset"
    "mosaics_A addresses = mosaics_A exampleOldAddresses"
    "nemesis presetData' = nemesis oldPreset"
    "g' = [] @ es" "\<forall>ev\<in>set es. \<forall>i. ev \<noteq> GenNemesisAccount i"
    by auto
  then have "mosaics_A addresses = Some [\<lparr>id_MA = ''0X'', name_MA = ''currency'', accounts_MA = []\<rparr>]"
    "nemesis presetData' = Some \<lparr>nemesisSignerPrivateKey = None, mosaics = Some []\<rparr>"
    "GenNemesisAccount 0 \<notin> set g'"
    by (auto simp: exampleOldAddresses_def exampleOldPreset_def)
  with r show ?thesis by (intro exI[of _ addresses] exI[of _ presetData'] exI[of _ g'] conjI)
qed






section \<open>The correction of the first entry\<close>

lemma correction_on_success:
  assumes ok: "processMosaic s p ns addr len m i g = Inr (m', acc, g')"
      and safe: "supply_MP m \<le> MAX_SAFE_INTEGER"
      and ne: "accounts_MA acc \<noteq> []"
  shows "\<exists>generated.
     (\<forall>d\<in>set (providedDistributions p ns m i). 0 \<le> amount d) \<and>
     generated = generatedAccounts (accounts_MA acc) (nodeMainAccounts p ns i)
        (maxHarvesterBalanceOf p len i)
        ((supply_MP m - sum_list (map amount (providedDistributions p ns m i))) div
           int (length (accounts_MA acc) + length (nodeMainAccounts p ns i))) \<and>
     0 < (supply_MP m - sum_list (map amount (providedDistributions p ns m i))) div
           int (length (accounts_MA acc) + length (nodeMainAccounts p ns i)) \<and>
     currencyDistributions m' =
       Some (\<lparr>address_D = address (hd (accounts_MA acc)),
              amount = supply_MP m - sum_list (map amount (providedDistributions p ns m i)) -
                       sum_list (map amount (tl generated))\<rparr> #
             filter (\<lambda>d. 0 < amount d) (tl generated) @
             filter (\<lambda>d. 0 < amount d) (providedDistributions p ns m i))"
proof -
  let ?prov = "providedDistributions p ns m i"
  let ?per = "(supply_MP m - sum_list (map amount ?prov)) div
           int (length (accounts_MA acc) + length (nodeMainAccounts p ns i))"
  let ?gen = "generatedAccounts (accounts_MA acc) (nodeMainAccounts p ns i)
        (maxHarvesterBalanceOf p len i) ?per"
  from ne have ne': "accounts_MA acc \<noteq> [] \<or> nodeMainAccounts p ns i \<noteq> []" by simp
  from distribution_on_success[OF ok safe ne'] obtain g0 gs where
    pnn: "\<forall>d\<in>set ?prov. 0 \<le> amount d" and
    gc: "?gen = g0 # gs" and pos: "0 < amount g0" and
    cd: "currencyDistributions m' =
       Some (g0\<lparr>amount := supply_MP m - sum_list (map amount ?prov) - sum_list (map amount gs)\<rparr> #
             filter (\<lambda>d. 0 < amount d) gs @ filter (\<lambda>d. 0 < amount d) ?prov)"
    by blast
  from generatedAccounts_Cons[OF ne] obtain gs' where
    "?gen = \<lparr>address_D = address (hd (accounts_MA acc)), amount = ?per\<rparr> # gs'" by blast
  with gc have g0: "g0 = \<lparr>address_D = address (hd (accounts_MA acc)), amount = ?per\<rparr>" by simp
  from g0 pos have pp: "0 < ?per" by simp
  from gc have tl: "tl ?gen = gs" by simp
  from cd g0 tl have cd': "currencyDistributions m' =
       Some (\<lparr>address_D = address (hd (accounts_MA acc)),
              amount = supply_MP m - sum_list (map amount ?prov) - sum_list (map amount (tl ?gen))\<rparr> #
             filter (\<lambda>d. 0 < amount d) (tl ?gen) @ filter (\<lambda>d. 0 < amount d) ?prov)" by simp
  show ?thesis
    using pnn pp cd' by (intro exI[of _ ?gen] conjI refl)
qed

text \<open>
  Claim C2. The correction writes to the first entry of the filtered list. With no
  nodes, a mosaic of supply 10 whose one provided distribution has amount 10, and the one
  free account of the default, the quotient is 0, the free account is filtered out, and
  the correction overwrites the provided entry: its 10 becomes 0. The check of the total
  then throws. (Lemma \<open>correction_on_success\<close>: whenever the processing of a mosaic
  with a free account and a safe-integer supply returns, the quotient is positive and the
  entry corrected is the one of the first free account, with the provided entries kept.)
\<close>

theorem correction_overwrites_provided_entry:
  "accounts_MP exampleExplicitMosaic = None \<and>
   supply_MP exampleExplicitMosaic = 10 \<and>
   currencyDistributions exampleExplicitMosaic = Some [\<lparr>address_D = ''TX'', amount = 10\<rparr>] \<and>
   generateAddresses exampleSdk (GenNemesisAccount 0)
     (accountsOrOne (accounts_MP exampleExplicitMosaic)) [] =
     Inr ([\<lparr>privateKey = Some ''F'', publicKey = ''PF'', address = ''TPF''\<rparr>], [GenNemesisAccount 0]) \<and>
   correctionStep exampleExplicit [] 1 exampleExplicitMosaic 0
     [\<lparr>privateKey = Some ''F'', publicKey = ''PF'', address = ''TPF''\<rparr>] =
     Inr [\<lparr>address_D = ''TX'', amount = 0\<rparr>] \<and>
   generateRandomConfiguration exampleSdk exampleEnv None None exampleExplicit [] =
     Some (Inl (InvalidTotalSupplied 10 0))"
  by code_simp

section \<open>Properties of mergePresets\<close>

lemma map_of_replace:
  "k \<in> fst ` set fs \<Longrightarrow>
     map_of (map (\<lambda>(k', x). if k' = k then (k', v) else (k', x)) fs) k = Some v"
proof (induction fs)
  case Nil
  then show ?case by simp
next
  case (Cons a fs)
  obtain k' x where a: "a = (k', x)" by (cases a)
  show ?case
  proof (cases "k' = k")
    case True
    with a show ?thesis by simp
  next
    case False
    with a Cons.prems have "k \<in> fst ` set fs" by auto
    with Cons.IH a False show ?thesis by simp
  qed
qed

lemma map_of_assign_same: "map_of (assign fs k v) k = Some v"
proof (cases "k \<in> fst ` set fs")
  case True
  then show ?thesis by (simp add: assign_def map_of_replace)
next
  case False
  then have "map_of fs k = None" by (simp add: map_of_eq_None_iff)
  with False show ?thesis by (simp add: assign_def map_add_def)
qed

lemma find_append_skip: "\<forall>p\<in>set xs. \<not> P p \<Longrightarrow> find P (xs @ ys) = find P ys"
  by (induction xs) auto

lemma find_last_layer:
  assumes "hasInflation (Some fs)" and "\<forall>p\<in>set after. \<not> hasInflation p"
  shows "find hasInflation (rev (before @ Some fs # after)) = Some (Some fs)"
proof -
  have "rev (before @ Some fs # after) = rev after @ (Some fs # rev before)" by simp
  moreover have "\<forall>p\<in>set (rev after). \<not> hasInflation p" using assms(2) by simp
  ultimately have "find hasInflation (rev (before @ Some fs # after)) =
      find hasInflation (Some fs # rev before)"
    by (simp only: find_append_skip)
  with assms(1) show ?thesis by simp
qed

text \<open>
  Claim C5, as amended. Let a layer have a truthy \<^verbatim>\<open>inflation\<close> value \<open>v\<close>, and let
  no layer after it have one. If \<open>v\<close> is not empty, the inflation of the merged preset
  is \<open>v\<close> itself, whatever the layers before it hold. If \<open>v\<close> is empty (the guard
  \<^verbatim>\<open>!_.isEmpty(inflation)\<close>), the merged preset is lodash's deep merge of all layers.
\<close>

theorem inflation_taken_from_last_layer:
  "hasInflation (Some fs) \<and> (\<forall>p\<in>set after. \<not> hasInflation p) \<and>
   map_of fs ''inflation'' = Some v \<longrightarrow>
     (\<not> isEmptyJ v \<longrightarrow>
        map_of (mergePresets (before @ Some fs # after)) ''inflation'' = Some v) \<and>
     (isEmptyJ v \<longrightarrow>
        mergePresets (before @ Some fs # after) = lodashMerge (before @ Some fs # after))"
proof
  assume h: "hasInflation (Some fs) \<and> (\<forall>p\<in>set after. \<not> hasInflation p) \<and>
   map_of fs ''inflation'' = Some v"
  then have f: "find hasInflation (rev (before @ Some fs # after)) = Some (Some fs)"
    using find_last_layer by blast
  from h have t: "truthyJ v" by (auto simp: hasInflation_def)
  show "(\<not> isEmptyJ v \<longrightarrow>
        map_of (mergePresets (before @ Some fs # after)) ''inflation'' = Some v) \<and>
     (isEmptyJ v \<longrightarrow>
        mergePresets (before @ Some fs # after) = lodashMerge (before @ Some fs # after))"
  proof -
    from h have mv: "map_of fs ''inflation'' = Some v" by simp
    have mp: "mergePresets (before @ Some fs # after) =
        (if \<not> isEmptyJ v
         then assign (lodashMerge (before @ Some fs # after)) ''inflation'' v
         else lodashMerge (before @ Some fs # after))"
      unfolding mergePresets_def f using mv t by (simp add: Let_def)
    show ?thesis unfolding mp by (simp add: map_of_assign_same)
  qed
qed

theorem inflation_taken_from_last_layer_witness:
  "map_of (mergePresets [Some exampleLayerA, Some exampleLayerB, None]) ''inflation'' =
     Some (JObj [(''starting-at-height-5'', JNum 50)]) \<and>
   mergePresets [Some exampleLayerA, Some exampleLayerEmpty] =
     lodashMerge [Some exampleLayerA, Some exampleLayerEmpty]"
proof
  have h1: "hasInflation (Some exampleLayerB) \<and> (\<forall>p\<in>set [None]. \<not> hasInflation p) \<and>
     map_of exampleLayerB ''inflation'' = Some (JObj [(''starting-at-height-5'', JNum 50)])"
    by (simp add: hasInflation_def exampleLayerB_def)
  from inflation_taken_from_last_layer[rule_format, OF h1, THEN conjunct1, of "[Some exampleLayerA]"]
  show "map_of (mergePresets [Some exampleLayerA, Some exampleLayerB, None]) ''inflation'' =
     Some (JObj [(''starting-at-height-5'', JNum 50)])" by simp
  have h2: "hasInflation (Some exampleLayerEmpty) \<and> (\<forall>p\<in>set []. \<not> hasInflation p) \<and>
     map_of exampleLayerEmpty ''inflation'' = Some (JObj [])"
    by (simp add: hasInflation_def exampleLayerEmpty_def)
  from inflation_taken_from_last_layer[rule_format, OF h2, THEN conjunct2, of "[Some exampleLayerA]"]
  show "mergePresets [Some exampleLayerA, Some exampleLayerEmpty] =
     lodashMerge [Some exampleLayerA, Some exampleLayerEmpty]" by simp
qed

text \<open>
  The claim as stated fails where the last layer that defines an inflation map defines the
  empty map: the merged inflation is then the one of the layer before, not the empty map.
\<close>

theorem inflation_empty_map_counterexample:
  "hasInflation (Some exampleLayerA) \<and> hasInflation (Some exampleLayerEmpty) \<and>
   map_of exampleLayerEmpty ''inflation'' = Some (JObj []) \<and>
   map_of (mergePresets [Some exampleLayerA, Some exampleLayerEmpty]) ''inflation'' =
     Some (JObj [(''starting-at-height-1'', JNum 100)]) \<and>
   map_of (mergePresets [Some exampleLayerA, Some exampleLayerEmpty]) ''inflation'' \<noteq>
     map_of exampleLayerEmpty ''inflation''"
  by code_simp

section \<open>Properties of ConfigService.run\<close>

lemma example_locations:
  "getGeneratedPresetLocation ''target'' = ''target/preset.yml''"
  "getGeneratedAddressLocation ''target'' = ''target/addresses.yml''"
  "getGeneratedPresetLocation ''target/'' = ''target/preset.yml''"
  by code_simp+

text \<open>
  Without \<^verbatim>\<open>reset\<close>, a target folder that holds exactly one of the two files makes the
  run throw before anything is generated or written, with an error that names the missing
  file; and the run reaches \<open>generate\<close> only with both files and \<^verbatim>\<open>upgrade\<close>, or with
  neither file. (With \<^verbatim>\<open>reset\<close> the folder is deleted first, and the run starts afresh.)
\<close>

lemma one_companion_file_aborts:
  "\<not> reset \<longrightarrow>
     (presetYml folder \<noteq> None \<and> addressesYml folder = None \<longrightarrow>
        (\<forall>generate.
           run reset upgrade migrateAddresses target folder generate =
             Inl (if upgrade then CannotUpgradeWithout (getGeneratedAddressLocation target)
                  else FileDoesNotExist (getGeneratedAddressLocation target))) \<and>
        namedFile (if upgrade then CannotUpgradeWithout (getGeneratedAddressLocation target)
                   else FileDoesNotExist (getGeneratedAddressLocation target)) =
          Some (getGeneratedAddressLocation target)) \<and>
     (presetYml folder = None \<and> addressesYml folder \<noteq> None \<longrightarrow>
        (\<forall>generate.
           run reset upgrade migrateAddresses target folder generate =
             Inl (FileDoesNotExist (getGeneratedPresetLocation target))) \<and>
        namedFile (FileDoesNotExist (getGeneratedPresetLocation target)) =
          Some (getGeneratedPresetLocation target)) \<and>
     (\<forall>generate r.
        run reset upgrade migrateAddresses target folder generate = Inr (Generated r) \<longrightarrow>
          (presetYml folder \<noteq> None \<and> addressesYml folder \<noteq> None \<and> upgrade) \<or>
          (presetYml folder = None \<and> addressesYml folder = None))"
proof (intro impI conjI allI)
  assume "\<not> reset" and "presetYml folder \<noteq> None \<and> addressesYml folder = None"
  then show "run reset upgrade migrateAddresses target folder generate =
             Inl (if upgrade then CannotUpgradeWithout (getGeneratedAddressLocation target)
                  else FileDoesNotExist (getGeneratedAddressLocation target))" for generate
    by (auto simp: run_def loadExistingPresetData_def loadExistingPresetDataIfPreset_def
          loadExistingAddresses_def loadExistingAddressesIfPreset_def)
next
  show "namedFile (if upgrade then CannotUpgradeWithout (getGeneratedAddressLocation target)
                   else FileDoesNotExist (getGeneratedAddressLocation target)) =
          Some (getGeneratedAddressLocation target)" by simp
next
  assume "\<not> reset" and "presetYml folder = None \<and> addressesYml folder \<noteq> None"
  then show "run reset upgrade migrateAddresses target folder generate =
             Inl (FileDoesNotExist (getGeneratedPresetLocation target))" for generate
    by (auto simp: run_def loadExistingPresetData_def loadExistingPresetDataIfPreset_def
          loadExistingAddresses_def loadExistingAddressesIfPreset_def)
next
  show "namedFile (FileDoesNotExist (getGeneratedPresetLocation target)) =
          Some (getGeneratedPresetLocation target)" by simp
next
  fix generate r
  assume "\<not> reset" and "run reset upgrade migrateAddresses target folder generate = Inr (Generated r)"
  then show "(presetYml folder \<noteq> None \<and> addressesYml folder \<noteq> None \<and> upgrade) \<or>
          (presetYml folder = None \<and> addressesYml folder = None)"
    by (cases "presetYml folder"; cases "addressesYml folder"; cases upgrade)
       (auto simp: run_def loadExistingPresetData_def loadExistingPresetDataIfPreset_def
          loadExistingAddresses_def loadExistingAddressesIfPreset_def split: sum.splits)
qed

text \<open>
  The KnownError of lines 139-141, for a folder with \<^verbatim>\<open>addresses.yml\<close> and no
  \<^verbatim>\<open>preset.yml\<close>, is never thrown: \<^verbatim>\<open>loadExistingAddressesIfPreset\<close> returns addresses
  only after \<^verbatim>\<open>loadExistingPresetData\<close> has found the preset.
\<close>

lemma addresses_loaded_with_preset:
  "loadExistingAddressesIfPreset migrateAddresses target folder = Inr (Some addresses) \<Longrightarrow>
     loadExistingPresetDataIfPreset folder \<noteq> None"
  by (auto simp: loadExistingAddressesIfPreset_def loadExistingPresetData_def
        split: option.splits sum.splits)

text \<open>
  Claim C9. A target folder with exactly one of \<^verbatim>\<open>preset.yml\<close> and \<^verbatim>\<open>addresses.yml\<close>,
  and no \<^verbatim>\<open>reset\<close>. With \<^verbatim>\<open>addresses.yml\<close> only, the run throws the plain Error of
  \<^verbatim>\<open>loadExistingPresetData\<close>, with or without \<^verbatim>\<open>upgrade\<close>; with \<^verbatim>\<open>preset.yml\<close> only and
  no \<^verbatim>\<open>upgrade\<close>, it throws the plain Error of \<^verbatim>\<open>loadExistingAddresses\<close>. Neither is a
  KnownError, so the run reports them as unknown errors. Only with \<^verbatim>\<open>preset.yml\<close> only and
  \<^verbatim>\<open>upgrade\<close> does it throw the KnownError of line 143.
\<close>

theorem companion_file_error_class:
  "run False upgrade migrateAddresses target \<lparr>presetYml = None, addressesYml = Some a\<rparr> generate =
     Inl (FileDoesNotExist (getGeneratedPresetLocation target)) \<and>
   \<not> known (FileDoesNotExist (getGeneratedPresetLocation target)) \<and>
   run False False migrateAddresses target \<lparr>presetYml = Some p, addressesYml = None\<rparr> generate =
     Inl (FileDoesNotExist (getGeneratedAddressLocation target)) \<and>
   \<not> known (FileDoesNotExist (getGeneratedAddressLocation target)) \<and>
   run False True migrateAddresses target \<lparr>presetYml = Some p, addressesYml = None\<rparr> generate =
     Inl (CannotUpgradeWithout (getGeneratedAddressLocation target)) \<and>
   known (CannotUpgradeWithout (getGeneratedAddressLocation target))"
  by (simp add: run_def loadExistingPresetData_def loadExistingPresetDataIfPreset_def
        loadExistingAddresses_def loadExistingAddressesIfPreset_def)

section \<open>Properties of expandServicesRepeat\<close>

lemma expandServicesRepeat_eq:
  "expandServicesRepeat l c services = map_sum id concat (sequence (map (expandService l c) services))"
proof -
  have "expandService l c = (\<lambda>service.
          if \<not> isObject service then Inr [service]
          else if map_of (entriesOf service) ''repeat'' = Some (JNum 0) then Inr []
          else sequence (map (\<lambda>index.
                 map_sum id (\<lambda>fs. omit fs ''repeat'')
                   (sequence (map (\<lambda>(k, x). map_sum id (Pair k)
                      (applyValueTemplate l
                         ((c ++ map_of (entriesOf service))(''$index'' \<mapsto> JNum index)) x))
                      (entriesOf service))))
               (rangeJ (repeatCount l (map_of (entriesOf service) ''repeat'')))))"
    by (rule ext) (simp add: expandService_def mapValuesTemplate_def copyContext_def)
  then show ?thesis by (simp only: expandServicesRepeat.simps)
qed

lemma sequence_append:
  "sequence (xs @ ys) =
     (case sequence xs of
        Inl e \<Rightarrow> Inl e
      | Inr a \<Rightarrow> (case sequence ys of Inl e \<Rightarrow> Inl e | Inr b \<Rightarrow> Inr (a @ b)))"
proof (induction xs)
  case Nil
  show ?case by (simp split: sum.splits)
next
  case (Cons x xs)
  show ?case by (cases x) (simp_all add: Cons.IH split: sum.splits)
qed

lemma sequence_Inr:
  "sequence rs = Inr xs \<Longrightarrow> length xs = length rs \<and> (\<forall>i<length rs. rs ! i = Inr (xs ! i))"
proof (induction rs arbitrary: xs)
  case Nil
  then show ?case by simp
next
  case (Cons r rs)
  from Cons.prems obtain y ys where r: "r = Inr y" and ys: "sequence rs = Inr ys" and xs: "xs = y # ys"
    by (cases r) (auto split: sum.splits)
  from Cons.IH[OF ys] have "length ys = length rs" "\<forall>i<length rs. rs ! i = Inr (ys ! i)" by simp_all
  with r xs show ?case by (auto simp: nth_Cons split: nat.splits)
qed

lemma expandServicesRepeat_append:
  "expandServicesRepeat l c (xs @ ys) =
     (case expandServicesRepeat l c xs of
        Inl e \<Rightarrow> Inl e
      | Inr a \<Rightarrow> (case expandServicesRepeat l c ys of Inl e \<Rightarrow> Inl e | Inr b \<Rightarrow> Inr (a @ b)))"
  by (simp add: expandServicesRepeat_eq sequence_append split: sum.splits)

lemma expandServicesRepeat_Cons:
  "expandServicesRepeat l c (x # xs) =
     (case expandService l c x of
        Inl e \<Rightarrow> Inl e
      | Inr m \<Rightarrow> (case expandServicesRepeat l c xs of Inl e \<Rightarrow> Inl e | Inr b \<Rightarrow> Inr (m @ b)))"
  by (simp add: expandServicesRepeat_eq split: sum.splits)

lemma mapValuesTemplate_Inr:
  assumes "mapValuesTemplate l c' fs = Inr fs'"
  shows "length fs' = length fs \<and>
         (\<forall>j<length fs. fst (fs' ! j) = fst (fs ! j) \<and>
             applyValueTemplate l c' (snd (fs ! j)) = Inr (snd (fs' ! j)))"
proof -
  from sequence_Inr[OF assms[unfolded mapValuesTemplate_def]]
  have len: "length fs' = length fs" and
    nth: "\<forall>j<length fs. (case fs ! j of (k, x) \<Rightarrow> map_sum id (Pair k) (applyValueTemplate l c' x)) = Inr (fs' ! j)"
    by simp_all
  have "\<forall>j<length fs. fst (fs' ! j) = fst (fs ! j) \<and>
             applyValueTemplate l c' (snd (fs ! j)) = Inr (snd (fs' ! j))"
  proof (intro allI impI)
    fix j assume "j < length fs"
    with nth have h: "(case fs ! j of (k, x) \<Rightarrow> map_sum id (Pair k) (applyValueTemplate l c' x)) = Inr (fs' ! j)"
      by simp
    obtain k x where kx: "fs ! j = (k, x)" by (cases "fs ! j")
    with h have "map_sum id (Pair k) (applyValueTemplate l c' x) = Inr (fs' ! j)" by simp
    then obtain y where "applyValueTemplate l c' x = Inr y" "fs' ! j = (k, y)"
      by (cases "applyValueTemplate l c' x") auto
    with kx show "fst (fs' ! j) = fst (fs ! j) \<and>
             applyValueTemplate l c' (snd (fs ! j)) = Inr (snd (fs' ! j))" by simp
  qed
  with len show ?thesis by simp
qed

lemma omit_no_repeat: "map_of (entriesOf (omit fs k)) k = None"
  by (induction fs) (auto simp: omit_def)

lemma expandService_Inr:
  assumes "expandService l c (JObj fs) = Inr m"
  shows "(\<forall>entry\<in>set m. map_of (entriesOf entry) ''repeat'' = None) \<and>
         (map_of fs ''repeat'' = Some (JNum 0) \<longrightarrow> m = []) \<and>
         (map_of fs ''repeat'' \<noteq> Some (JNum 0) \<longrightarrow>
            length m = length (rangeJ (repeatCount l (map_of fs ''repeat''))) \<and>
            (\<forall>i<length m. \<exists>fs'.
                mapValuesTemplate l (copyContext c (JObj fs) (rangeJ (repeatCount l (map_of fs ''repeat'')) ! i)) fs
                  = Inr fs' \<and>
                m ! i = omit fs' ''repeat''))"
proof (cases "map_of fs ''repeat'' = Some (JNum 0)")
  case True
  with assms show ?thesis by (simp add: expandService_def)
next
  case False
  let ?is = "rangeJ (repeatCount l (map_of fs ''repeat''))"
  from assms False have sq: "sequence (map (\<lambda>index.
             map_sum id (\<lambda>fs. omit fs ''repeat'')
               (mapValuesTemplate l (copyContext c (JObj fs) index) fs)) ?is) = Inr m"
    by (simp add: expandService_def)
  from sequence_Inr[OF sq] have len: "length m = length ?is" and
    nth: "\<forall>i<length ?is. map_sum id (\<lambda>fs. omit fs ''repeat'')
               (mapValuesTemplate l (copyContext c (JObj fs) (?is ! i)) fs) = Inr (m ! i)"
    by simp_all
  have each: "\<forall>i<length m. \<exists>fs'.
                mapValuesTemplate l (copyContext c (JObj fs) (?is ! i)) fs = Inr fs' \<and>
                m ! i = omit fs' ''repeat''"
  proof (intro allI impI)
    fix i assume "i < length m"
    with len nth have "map_sum id (\<lambda>fs. omit fs ''repeat'')
               (mapValuesTemplate l (copyContext c (JObj fs) (?is ! i)) fs) = Inr (m ! i)" by simp
    then show "\<exists>fs'. mapValuesTemplate l (copyContext c (JObj fs) (?is ! i)) fs = Inr fs' \<and>
                m ! i = omit fs' ''repeat''"
      by (cases "mapValuesTemplate l (copyContext c (JObj fs) (?is ! i)) fs") auto
  qed
  have norep: "\<forall>entry\<in>set m. map_of (entriesOf entry) ''repeat'' = None"
  proof
    fix entry assume "entry \<in> set m"
    then obtain i where "i < length m" "entry = m ! i" by (auto simp: in_set_conv_nth)
    with each obtain fs' where "entry = omit fs' ''repeat''" by blast
    then show "map_of (entriesOf entry) ''repeat'' = None" by (simp add: omit_no_repeat)
  qed
  from False len each norep show ?thesis by simp
qed

lemma rangeJ_one: "rangeJ 1 = [0]"
  by (simp add: rangeJ_def)

lemma rangeJ_pos: "1 \<le> N \<Longrightarrow> length (rangeJ N) = nat N \<and> (\<forall>i<nat N. rangeJ N ! i = int i)"
  by (simp add: rangeJ_def)

text \<open>
  The expansion throws only where the template engine does: with a \<^verbatim>\<open>runTemplate\<close> that
  renders every string, \<^verbatim>\<open>applyValueTemplate\<close> and \<^verbatim>\<open>expandServicesRepeat\<close> return.
\<close>

lemma sequence_total: "\<forall>r\<in>set rs. \<exists>x. r = Inr x \<Longrightarrow> \<exists>xs. sequence rs = Inr xs"
proof (induction rs)
  case Nil
  then show ?case by simp
next
  case (Cons r rs)
  then obtain x xs where "r = Inr x" "sequence rs = Inr xs" by auto
  then show ?case by simp
qed

lemma mapValues_total:
  assumes "\<And>k x. (k, x) \<in> set fs \<Longrightarrow> \<exists>r. applyValueTemplate l c' x = Inr r"
  shows "\<exists>fs'. sequence (map (\<lambda>(k, x). map_sum id (Pair k) (applyValueTemplate l c' x)) fs) = Inr fs'"
proof (rule sequence_total, rule ballI)
  fix r assume "r \<in> set (map (\<lambda>(k, x). map_sum id (Pair k) (applyValueTemplate l c' x)) fs)"
  then obtain k x where kx: "(k, x) \<in> set fs" and r: "r = map_sum id (Pair k) (applyValueTemplate l c' x)"
    by auto
  from assms[OF kx] obtain y where "applyValueTemplate l c' x = Inr y" by blast
  with r show "\<exists>x. r = Inr x" by simp
qed

lemma expansion_returns:
  "((\<forall>str c'. \<exists>r. runTemplate l str c' = Inr r) \<longrightarrow> (\<exists>r. applyValueTemplate l c v = Inr r))"
  "((\<forall>str c'. \<exists>r. runTemplate l str c' = Inr r) \<longrightarrow> (\<exists>r. expandServicesRepeat l c xs = Inr r))"
proof (induction l c v and l c xs rule: applyValueTemplate_expandServicesRepeat.induct)
  case (1 l c v)
  show ?case
  proof
    assume rt: "\<forall>str c'. \<exists>r. runTemplate l str c' = Inr r"
    show "\<exists>r. applyValueTemplate l c v = Inr r"
    proof (cases "truthyJ v")
      case False
      then show ?thesis by (subst applyValueTemplate.simps) simp
    next
      case True
      show ?thesis
      proof (cases v)
        case (JArr xs)
        with 1(1)[of xs] True rt obtain r where "expandServicesRepeat l c xs = Inr r" by auto
        with JArr True show ?thesis by (subst applyValueTemplate.simps) simp
      next
        case (JObj fs)
        have ih: "\<exists>r. applyValueTemplate l (c ++ map_of fs) x = Inr r" if "(k, x) \<in> set fs" for k x
          using 1(2)[OF _ JObj that] True rt by auto
        have "\<exists>fs'. sequence (map (\<lambda>(k, x). map_sum id (Pair k) (applyValueTemplate l (c ++ map_of fs) x)) fs) = Inr fs'"
          by (rule mapValues_total) (rule ih)
        then obtain fs' where
          "sequence (map (\<lambda>(k, x). map_sum id (Pair k) (applyValueTemplate l (c ++ map_of fs) x)) fs) = Inr fs'"
          by blast
        with JObj True show ?thesis by (subst applyValueTemplate.simps) simp
      next
        case (JStr str)
        from rt obtain r where "runTemplate l str c = Inr r" by blast
        with JStr True show ?thesis by (subst applyValueTemplate.simps) simp
      next
        case JNull
        then show ?thesis by (subst applyValueTemplate.simps) simp
      next
        case (JBool b)
        then show ?thesis by (subst applyValueTemplate.simps) simp
      next
        case (JNum n)
        then show ?thesis by (subst applyValueTemplate.simps) simp
      qed
    qed
  qed
next
  case (2 l c services)
  show ?case
  proof
    assume rt: "\<forall>str c'. \<exists>r. runTemplate l str c' = Inr r"
    have "\<forall>r\<in>set (map (expandService l c) services). \<exists>x. r = Inr x"
    proof
      fix r assume "r \<in> set (map (expandService l c) services)"
      then obtain service where sv: "service \<in> set services" and r: "r = expandService l c service" by auto
      show "\<exists>x. r = Inr x"
      proof (cases "\<not> isObject service \<or> map_of (entriesOf service) ''repeat'' = Some (JNum 0)")
        case True
        with r show ?thesis by (auto simp: expandService_def)
      next
        case False
        have "\<forall>q\<in>set (map (\<lambda>index.
             map_sum id (\<lambda>fs. omit fs ''repeat'')
               (mapValuesTemplate l (copyContext c service index) (entriesOf service)))
           (rangeJ (repeatCount l (map_of (entriesOf service) ''repeat'')))). \<exists>x. q = Inr x"
        proof
          fix q assume "q \<in> set (map (\<lambda>index.
             map_sum id (\<lambda>fs. omit fs ''repeat'')
               (mapValuesTemplate l (copyContext c service index) (entriesOf service)))
           (rangeJ (repeatCount l (map_of (entriesOf service) ''repeat''))))"
          then obtain index where ix: "index \<in> set (rangeJ (repeatCount l (map_of (entriesOf service) ''repeat'')))"
            and q: "q = map_sum id (\<lambda>fs. omit fs ''repeat'')
               (mapValuesTemplate l (copyContext c service index) (entriesOf service))" by auto
          have ih: "\<exists>r. applyValueTemplate l (copyContext c service index) x = Inr r"
            if "(k, x) \<in> set (entriesOf service)" for k x
            using 2[OF sv _ _ ix that] False rt unfolding copyContext_def by (auto simp: fun_upd_def)
          have "\<exists>fs'. sequence (map (\<lambda>(k, x). map_sum id (Pair k)
                 (applyValueTemplate l (copyContext c service index) x)) (entriesOf service)) = Inr fs'"
            by (rule mapValues_total) (rule ih)
          then obtain fs' where
            "mapValuesTemplate l (copyContext c service index) (entriesOf service) = Inr fs'"
            unfolding mapValuesTemplate_def by blast
          with q show "\<exists>x. q = Inr x" by simp
        qed
        from sequence_total[OF this] False r show ?thesis by (simp add: expandService_def)
      qed
    qed
    from sequence_total[OF this] obtain ys where "sequence (map (expandService l c) services) = Inr ys"
      by blast
    then show "\<exists>r. expandServicesRepeat l c services = Inr r" by (simp add: expandServicesRepeat_eq)
  qed
qed

lemma example_expand:
  "expandServicesRepeat exampleLib Map.empty exampleServices =
     Inr [JObj [(''name'', JStr ''db'')], JObj [(''name'', JStr ''0'')], JObj [(''name'', JStr ''1'')]]"
  by code_simp

text \<open>
  Claim C4. \<^verbatim>\<open>expandServicesRepeat\<close>: when the expansion of a list of services returns
  \<open>out\<close>, every object entry \<open>JObj fs\<close> of the list contributes a segment \<open>m\<close> of \<open>out\<close>,
  placed between the expansion \<open>a\<close> of the entries before it and the expansion \<open>b\<close> of the
  entries after it, so the output keeps the order of the input. No entry of \<open>m\<close> has a
  \<^verbatim>\<open>repeat\<close> key. With \<^verbatim>\<open>repeat: 0\<close> the segment is empty; without a \<^verbatim>\<open>repeat\<close> key it has
  exactly one entry; with \<^verbatim>\<open>repeat: N\<close>, \<open>N \<ge> 1\<close>, it has exactly \<open>N\<close> entries. In the last two
  cases copy \<open>i\<close> (from 0) is the entry with every field value expanded by
  \<^verbatim>\<open>applyValueTemplate\<close> in the context extended by the fields of the service and by
  \<^verbatim>\<open>$index = i\<close>, and with the \<^verbatim>\<open>repeat\<close> key removed.
\<close>

theorem expandServicesRepeat_entry:
  "expandServicesRepeat l c (before @ JObj fs # after) = Inr out \<longrightarrow>
     (\<exists>a m b.
        expandServicesRepeat l c before = Inr a \<and>
        expandServicesRepeat l c after = Inr b \<and>
        out = a @ m @ b \<and>
        (\<forall>entry\<in>set m. map_of (entriesOf entry) ''repeat'' = None) \<and>
        (map_of fs ''repeat'' = Some (JNum 0) \<longrightarrow> m = []) \<and>
        (map_of fs ''repeat'' = None \<longrightarrow> length m = 1) \<and>
        (\<forall>N. map_of fs ''repeat'' = Some (JNum N) \<and> 1 \<le> N \<longrightarrow> length m = nat N) \<and>
        (map_of fs ''repeat'' = None \<or> (\<exists>N. map_of fs ''repeat'' = Some (JNum N) \<and> 1 \<le> N) \<longrightarrow>
           (\<forall>i<length m. \<exists>fs'.
              m ! i = JObj (filter (\<lambda>(k, v). k \<noteq> ''repeat'') fs') \<and>
              length fs' = length fs \<and>
              (\<forall>j<length fs.
                 fst (fs' ! j) = fst (fs ! j) \<and>
                 applyValueTemplate l ((c ++ map_of fs)(''$index'' \<mapsto> JNum (int i))) (snd (fs ! j)) =
                   Inr (snd (fs' ! j))))))"
proof
  assume h: "expandServicesRepeat l c (before @ JObj fs # after) = Inr out"
  then obtain a rest where a: "expandServicesRepeat l c before = Inr a" and
    rest: "expandServicesRepeat l c (JObj fs # after) = Inr rest" and o1: "out = a @ rest"
    by (auto simp: expandServicesRepeat_append split: sum.splits)
  from rest obtain m b where m: "expandService l c (JObj fs) = Inr m" and
    b: "expandServicesRepeat l c after = Inr b" and o2: "rest = m @ b"
    by (auto simp: expandServicesRepeat_Cons split: sum.splits)
  let ?is = "rangeJ (repeatCount l (map_of fs ''repeat''))"
  from expandService_Inr[OF m] have
    nr: "\<forall>entry\<in>set m. map_of (entriesOf entry) ''repeat'' = None" and
    z: "map_of fs ''repeat'' = Some (JNum 0) \<longrightarrow> m = []" and
    nz: "map_of fs ''repeat'' \<noteq> Some (JNum 0) \<longrightarrow>
            length m = length ?is \<and>
            (\<forall>i<length m. \<exists>fs'.
                mapValuesTemplate l (copyContext c (JObj fs) (?is ! i)) fs = Inr fs' \<and>
                m ! i = omit fs' ''repeat'')"
    by simp_all
  have one: "map_of fs ''repeat'' = None \<longrightarrow> length m = 1"
    using nz by (simp add: repeatCount_def rangeJ_one)
  have many: "\<forall>N. map_of fs ''repeat'' = Some (JNum N) \<and> 1 \<le> N \<longrightarrow> length m = nat N"
    using nz by (auto simp: repeatCount_def rangeJ_pos)
  have copies: "map_of fs ''repeat'' = None \<or> (\<exists>N. map_of fs ''repeat'' = Some (JNum N) \<and> 1 \<le> N) \<longrightarrow>
           (\<forall>i<length m. \<exists>fs'.
              m ! i = JObj (filter (\<lambda>(k, v). k \<noteq> ''repeat'') fs') \<and>
              length fs' = length fs \<and>
              (\<forall>j<length fs.
                 fst (fs' ! j) = fst (fs ! j) \<and>
                 applyValueTemplate l ((c ++ map_of fs)(''$index'' \<mapsto> JNum (int i))) (snd (fs ! j)) =
                   Inr (snd (fs' ! j))))"
  proof (intro impI allI)
    fix i
    assume r: "map_of fs ''repeat'' = None \<or> (\<exists>N. map_of fs ''repeat'' = Some (JNum N) \<and> 1 \<le> N)"
    assume i: "i < length m"
    from r have ne: "map_of fs ''repeat'' \<noteq> Some (JNum 0)" by auto
    have idx: "?is ! i = int i"
      using r
    proof (rule disjE)
      assume n: "map_of fs ''repeat'' = None"
      with nz i have "i = 0" by (simp add: repeatCount_def rangeJ_one)
      with n show ?thesis by (simp add: repeatCount_def rangeJ_one)
    next
      assume "\<exists>N. map_of fs ''repeat'' = Some (JNum N) \<and> 1 \<le> N"
      then obtain N where N: "map_of fs ''repeat'' = Some (JNum N)" "1 \<le> N" by blast
      then have rc: "repeatCount l (map_of fs ''repeat'') = N" by (simp add: repeatCount_def)
      with nz ne i N rangeJ_pos[OF N(2)] show ?thesis by simp
    qed
    from nz ne i obtain fs' where
      mv: "mapValuesTemplate l (copyContext c (JObj fs) (?is ! i)) fs = Inr fs'" and
      mi: "m ! i = omit fs' ''repeat''" by blast
    from mapValuesTemplate_Inr[OF mv] idx have
      "length fs' = length fs \<and>
       (\<forall>j<length fs. fst (fs' ! j) = fst (fs ! j) \<and>
          applyValueTemplate l ((c ++ map_of fs)(''$index'' \<mapsto> JNum (int i))) (snd (fs ! j)) =
            Inr (snd (fs' ! j)))"
      by (simp add: copyContext_def)
    with mi show "\<exists>fs'.
              m ! i = JObj (filter (\<lambda>(k, v). k \<noteq> ''repeat'') fs') \<and>
              length fs' = length fs \<and>
              (\<forall>j<length fs.
                 fst (fs' ! j) = fst (fs ! j) \<and>
                 applyValueTemplate l ((c ++ map_of fs)(''$index'' \<mapsto> JNum (int i))) (snd (fs ! j)) =
                   Inr (snd (fs' ! j)))"
      unfolding omit_def by (intro exI[of _ fs'] conjI) simp_all
  qed
  from o1 o2 have o: "out = a @ m @ b" by simp
  show "\<exists>a m b.
        expandServicesRepeat l c before = Inr a \<and>
        expandServicesRepeat l c after = Inr b \<and>
        out = a @ m @ b \<and>
        (\<forall>entry\<in>set m. map_of (entriesOf entry) ''repeat'' = None) \<and>
        (map_of fs ''repeat'' = Some (JNum 0) \<longrightarrow> m = []) \<and>
        (map_of fs ''repeat'' = None \<longrightarrow> length m = 1) \<and>
        (\<forall>N. map_of fs ''repeat'' = Some (JNum N) \<and> 1 \<le> N \<longrightarrow> length m = nat N) \<and>
        (map_of fs ''repeat'' = None \<or> (\<exists>N. map_of fs ''repeat'' = Some (JNum N) \<and> 1 \<le> N) \<longrightarrow>
           (\<forall>i<length m. \<exists>fs'.
              m ! i = JObj (filter (\<lambda>(k, v). k \<noteq> ''repeat'') fs') \<and>
              length fs' = length fs \<and>
              (\<forall>j<length fs.
                 fst (fs' ! j) = fst (fs ! j) \<and>
                 applyValueTemplate l ((c ++ map_of fs)(''$index'' \<mapsto> JNum (int i))) (snd (fs ! j)) =
                   Inr (snd (fs' ! j)))))"
    using a b o nr z one many copies
    by (intro exI[of _ a] exI[of _ m] exI[of _ b] conjI)
qed

theorem expandServicesRepeat_entry_witness:
  "expandServicesRepeat exampleLib Map.empty exampleServices =
     Inr [JObj [(''name'', JStr ''db'')], JObj [(''name'', JStr ''0'')], JObj [(''name'', JStr ''1'')]] \<and>
   (\<exists>a m b. [JObj [(''name'', JStr ''db'')], JObj [(''name'', JStr ''0'')], JObj [(''name'', JStr ''1'')]] = a @ m @ b \<and>
      expandServicesRepeat exampleLib Map.empty [] = Inr a \<and> length m = 1) \<and>
   (\<exists>a m b. [JObj [(''name'', JStr ''db'')], JObj [(''name'', JStr ''0'')], JObj [(''name'', JStr ''1'')]] = a @ m @ b \<and>
      expandServicesRepeat exampleLib Map.empty [JObj [(''name'', JStr ''db'')]] = Inr a \<and> length m = 2 \<and>
      (\<forall>entry\<in>set m. map_of (entriesOf entry) ''repeat'' = None)) \<and>
   (\<exists>a m b. [JObj [(''name'', JStr ''db'')], JObj [(''name'', JStr ''0'')], JObj [(''name'', JStr ''1'')]] = a @ m @ b \<and>
      expandServicesRepeat exampleLib Map.empty [] = Inr b \<and> m = [])"
proof -
  let ?out = "[JObj [(''name'', JStr ''db'')], JObj [(''name'', JStr ''0'')], JObj [(''name'', JStr ''1'')]]"
  let ?s1 = "[(''name'', JStr ''db'')]"
  let ?s2 = "[(''name'', JStr ''{{$index}}''), (''repeat'', JNum 2)]"
  let ?s3 = "[(''name'', JStr ''faucet''), (''repeat'', JNum 0)]"
  have h1: "expandServicesRepeat exampleLib Map.empty ([] @ JObj ?s1 # [JObj ?s2, JObj ?s3]) = Inr ?out"
    using example_expand by (simp add: exampleServices_def)
  have h2: "expandServicesRepeat exampleLib Map.empty ([JObj ?s1] @ JObj ?s2 # [JObj ?s3]) = Inr ?out"
    using example_expand by (simp add: exampleServices_def)
  have h3: "expandServicesRepeat exampleLib Map.empty ([JObj ?s1, JObj ?s2] @ JObj ?s3 # []) = Inr ?out"
    using example_expand by (simp add: exampleServices_def)
  have r1: "map_of ?s1 ''repeat'' = None" by simp
  have r2: "map_of ?s2 ''repeat'' = Some (JNum 2) \<and> (1::int) \<le> 2" by simp
  have r3: "map_of ?s3 ''repeat'' = Some (JNum 0)" by simp
  from expandServicesRepeat_entry[rule_format, OF h1] r1
  have c1: "\<exists>a m b. ?out = a @ m @ b \<and> expandServicesRepeat exampleLib Map.empty [] = Inr a \<and> length m = 1"
    by (elim exE conjE) (intro exI conjI, assumption, assumption, simp)
  from expandServicesRepeat_entry[rule_format, OF h2]
  obtain a m b where d2: "expandServicesRepeat exampleLib Map.empty [JObj ?s1] = Inr a" "?out = a @ m @ b"
    "\<forall>entry\<in>set m. map_of (entriesOf entry) ''repeat'' = None"
    "\<forall>N. map_of ?s2 ''repeat'' = Some (JNum N) \<and> 1 \<le> N \<longrightarrow> length m = nat N"
    by (elim exE conjE)
  from d2(4) r2 have "length m = 2" by auto
  with d2 have c2: "\<exists>a m b. ?out = a @ m @ b \<and>
      expandServicesRepeat exampleLib Map.empty [JObj ?s1] = Inr a \<and> length m = 2 \<and>
      (\<forall>entry\<in>set m. map_of (entriesOf entry) ''repeat'' = None)"
    by (intro exI[of _ a] exI[of _ m] exI[of _ b] conjI)
  from expandServicesRepeat_entry[rule_format, OF h3] r3
  have c3: "\<exists>a m b. ?out = a @ m @ b \<and> expandServicesRepeat exampleLib Map.empty [] = Inr b \<and> m = []"
    by (elim exE conjE) (intro exI conjI, assumption, assumption, simp)
  from example_expand c1 c2 c3 show ?thesis by (intro conjI)
qed

end
